theory Spec2Isabelle
  imports Complex_Main
begin

section \<open>Outline rendering pipeline of react-scan: a shallow embedding\<close>

text \<open>
  The development follows the two source files of the pipeline: the aggregator module
  (\<^verbatim>\<open>outlineFiber\<close>, \<^verbatim>\<open>mergeRects\<close>, \<^verbatim>\<open>getBatchedRectMap\<close>, \<^verbatim>\<open>flushOutlines\<close>,
  \<^verbatim>\<open>getCanvasEl\<close>) and \<^verbatim>\<open>outline-renderer.ts\<close> (the two renderer classes).

  JavaScript numbers are finite reals here; \<^verbatim>\<open>NaN\<close> and the infinities have no
  counterpart, and the two zeros are one number. Where \<^verbatim>\<open>mergeRects\<close> adds and subtracts, the result is rounded as the
  platform rounds it, to the nearest double. Counters and identifiers, which the code
  only ever sets to integers, are \<^typ>\<open>nat\<close> or \<^typ>\<open>int\<close>.
\<close>

subsection \<open>JavaScript sets in insertion order\<close>

text \<open>
  A \<^verbatim>\<open>Set\<close> iterates in insertion order and \<^verbatim>\<open>add\<close> of a member changes nothing:
  a list without duplicates. \<^verbatim>\<open>new Set(xs)\<close> adds the elements of \<open>xs\<close> one by one.
\<close>

definition Set_add :: "'a list \<Rightarrow> 'a \<Rightarrow> 'a list" where
  "Set_add s v = (if v \<in> set s then s else s @ [v])"

definition new_Set :: "'a list \<Rightarrow> 'a list" where
  "new_Set vs = foldl Set_add [] vs"

subsection \<open>Blueprints and \<^verbatim>\<open>outlineFiber\<close>\<close>

text \<open>
  A \<^verbatim>\<open>stateNode\<close> is an \<^verbatim>\<open>Element\<close> or something else (a text node, \<^verbatim>\<open>null\<close>);
  \<^verbatim>\<open>instanceof Element\<close> tells the two apart. The number is the object's identity.
\<close>

datatype node = Element nat | OtherNode nat

fun instanceof_Element :: "node \<Rightarrow> bool" where
  "instanceof_Element (Element _) = True"
| "instanceof_Element (OtherNode _) = False"

record BlueprintOutline =
  bp_name :: string
  bp_count :: nat
  bp_elements :: "node list"
  bp_didCommit :: nat

text \<open>
  A \<^verbatim>\<open>Fiber\<close> is an object of React's, mutated by React between calls. What
  \<^verbatim>\<open>outlineFiber\<close> reads of it at one call is recorded here: its identity (the key of
  \<^verbatim>\<open>blueprintMap\<close>), \<^verbatim>\<open>isCompositeFiber(fiber)\<close>, \<^verbatim>\<open>fiber.type\<close> when it is a string,
  \<^verbatim>\<open>getDisplayName(fiber)\<close> (which may be \<^verbatim>\<open>null\<close>), the \<^verbatim>\<open>stateNode\<close>s of
  \<^verbatim>\<open>getNearestHostFibers(fiber)\<close> and \<^verbatim>\<open>didFiberCommit(fiber)\<close>.
\<close>

record fiber =
  fiber_ref :: nat
  isCompositeFiber :: bool
  type_string :: "string option"
  getDisplayName :: "string option"
  hostStateNodes :: "node list"
  didFiberCommit :: bool

text \<open>The module state: \<^verbatim>\<open>blueprintMap\<close> and the insertion-ordered \<^verbatim>\<open>blueprintMapKeys\<close>.\<close>

record aggregator =
  blueprintMap :: "nat \<rightharpoonup> BlueprintOutline"
  blueprintMapKeys :: "nat list"

definition empty_aggregator :: aggregator where
  "empty_aggregator = \<lparr>blueprintMap = Map.empty, blueprintMapKeys = []\<rparr>"

definition fiber_name :: "fiber \<Rightarrow> string option" where
  "fiber_name fiber =
     (case type_string fiber of Some s \<Rightarrow> Some s | None \<Rightarrow> getDisplayName fiber)"

text \<open>\<^verbatim>\<open>!name\<close> holds of \<^verbatim>\<open>null\<close> and of the empty string.\<close>

definition outlineFiber :: "fiber \<Rightarrow> aggregator \<Rightarrow> aggregator" where
  "outlineFiber fiber st =
     (if \<not> isCompositeFiber fiber then st
      else
        (case fiber_name fiber of
           None \<Rightarrow> st
         | Some name \<Rightarrow>
             if name = [] then st
             else
               (case blueprintMap st (fiber_ref fiber) of
                  None \<Rightarrow>
                    st\<lparr>blueprintMap := (blueprintMap st)(fiber_ref fiber \<mapsto>
                           \<lparr>bp_name = name,
                            bp_count = 1,
                            bp_elements = hostStateNodes fiber,
                            bp_didCommit = (if didFiberCommit fiber then 1 else 0)\<rparr>),
                       blueprintMapKeys := Set_add (blueprintMapKeys st) (fiber_ref fiber)\<rparr>
                | Some blueprint \<Rightarrow>
                    st\<lparr>blueprintMap := (blueprintMap st)(fiber_ref fiber \<mapsto>
                           blueprint\<lparr>bp_count := bp_count blueprint + 1\<rparr>)\<rparr>)))"

text \<open>A sequence of calls, first call first.\<close>

definition outlineFibers :: "fiber list \<Rightarrow> aggregator \<Rightarrow> aggregator" where
  "outlineFibers fibers st = foldl (\<lambda>s f. outlineFiber f s) st fibers"

text \<open>A call that passes the two early returns of \<^verbatim>\<open>outlineFiber\<close>.\<close>

definition records :: "fiber \<Rightarrow> bool" where
  "records fiber \<longleftrightarrow>
     isCompositeFiber fiber \<and> fiber_name fiber \<noteq> None \<and> fiber_name fiber \<noteq> Some []"

subsection \<open>Rectangles and \<^verbatim>\<open>mergeRects\<close>\<close>

record DOMRect =
  rect_x :: real
  rect_y :: real
  rect_width :: real
  rect_height :: real

text \<open>
  Double precision (IEEE 754 binary64), on the reals. \<open>pow2 e\<close> is \<open>2\<^sup>e\<close>. \<open>binade v\<close> is the
  exponent of \<open>v\<close>, at least that of the subnormal numbers, and the doubles of that
  exponent are the integer multiples of \<open>pow2 (binade v - 52)\<close>. \<open>to_double\<close> rounds to
  the nearest of them, and to the even one of two that are equally near. This is the
  platform's result for every real of magnitude below \<open>2\<^sup>1\<^sup>0\<^sup>2\<^sup>4 - 2\<^sup>9\<^sup>7\<^sup>0\<close>; beyond, the
  platform gives an infinity, and no statement below reaches that far.
\<close>

definition pow2 :: "int \<Rightarrow> real" where
  "pow2 e = (if 0 \<le> e then 2 ^ nat e else 1 / 2 ^ nat (- e))"

definition binade :: "real \<Rightarrow> int" where
  "binade v = max \<lfloor>log 2 \<bar>v\<bar>\<rfloor> (- 1022)"

definition round_even :: "real \<Rightarrow> int" where
  "round_even v =
     (let f = \<lfloor>v\<rfloor> in
      if v - of_int f < 1 / 2 then f
      else if 1 / 2 < v - of_int f then f + 1
      else if even f then f else f + 1)"

definition to_double :: "real \<Rightarrow> real" where
  "to_double v =
     (if v = 0 then 0
      else of_int (round_even (v / pow2 (binade v - 52))) * pow2 (binade v - 52))"

text \<open>\<^verbatim>\<open>a + b\<close> and \<^verbatim>\<open>a - b\<close> of two numbers.\<close>

definition double_add :: "real \<Rightarrow> real \<Rightarrow> real" where
  "double_add a b = to_double (a + b)"

definition double_sub :: "real \<Rightarrow> real \<Rightarrow> real" where
  "double_sub a b = to_double (a - b)"

text \<open>
  The four accumulators of the loop start \<^verbatim>\<open>undefined\<close>;
  \<^verbatim>\<open>minX = minX == null ? rect.x : Math.min(minX, rect.x)\<close> and its three siblings.
  \<^verbatim>\<open>Math.min\<close> and \<^verbatim>\<open>Math.max\<close> return one of their arguments and do not round.
\<close>

definition js_min :: "real option \<Rightarrow> real \<Rightarrow> real option" where
  "js_min acc v = (case acc of None \<Rightarrow> Some v | Some a \<Rightarrow> Some (min a v))"

definition js_max :: "real option \<Rightarrow> real \<Rightarrow> real option" where
  "js_max acc v = (case acc of None \<Rightarrow> Some v | Some a \<Rightarrow> Some (max a v))"

type_synonym bounds = "real option \<times> real option \<times> real option \<times> real option"

fun merge_step :: "bounds \<Rightarrow> DOMRect \<Rightarrow> bounds" where
  "merge_step (minX, minY, maxX, maxY) rect =
     (js_min minX (rect_x rect),
      js_min minY (rect_y rect),
      js_max maxX (double_add (rect_x rect) (rect_width rect)),
      js_max maxY (double_add (rect_y rect) (rect_height rect)))"

text \<open>
  \<^verbatim>\<open>rects[0]\<close> of an empty array is \<^verbatim>\<open>undefined\<close>, which is \<open>None\<close> here. A list
  of length one is returned as it is, before the loop.
\<close>

definition mergeRects :: "DOMRect list \<Rightarrow> DOMRect option" where
  "mergeRects rects =
     (let firstRect = (case rects of [] \<Rightarrow> None | r # _ \<Rightarrow> Some r) in
      if length rects = 1 then firstRect
      else
        (case foldl merge_step (None, None, None, None) rects of
           (Some minX, Some minY, Some maxX, Some maxY) \<Rightarrow>
             Some \<lparr>rect_x = minX, rect_y = minY,
                   rect_width = double_sub maxX minX, rect_height = double_sub maxY minY\<rparr>
         | _ \<Rightarrow> firstRect))"

text \<open>
  A \<^verbatim>\<open>DOMRect\<close> is a mutable object with an identity. Where that matters, the objects
  allocated so far are a list, the heap; a reference is an index into it, and
  \<^verbatim>\<open>new DOMRect(...)\<close> appends its object. \<open>mergeRects_refs\<close> is the function on an array
  of references: the heap it leaves and the reference it returns. It reads the fields
  of the objects given and assigns to none.
\<close>

definition new_DOMRect :: "DOMRect \<Rightarrow> DOMRect list \<Rightarrow> DOMRect list \<times> nat" where
  "new_DOMRect rect heap = (heap @ [rect], length heap)"

definition mergeRects_refs :: "DOMRect list \<Rightarrow> nat list \<Rightarrow> DOMRect list \<times> nat option" where
  "mergeRects_refs heap rects =
     (let firstRect = (case rects of [] \<Rightarrow> None | r # _ \<Rightarrow> Some r) in
      if length rects = 1 then (heap, firstRect)
      else
        (case foldl merge_step (None, None, None, None) (map (\<lambda>r. heap ! r) rects) of
           (Some minX, Some minY, Some maxX, Some maxY) \<Rightarrow>
             (case new_DOMRect
                     \<lparr>rect_x = minX, rect_y = minY,
                      rect_width = double_sub maxX minX, rect_height = double_sub maxY minY\<rparr>
                     heap of
                (heap', rect) \<Rightarrow> (heap', Some rect))
         | _ \<Rightarrow> (heap, firstRect)))"

text \<open>
  \<open>covers outer inner\<close>: the four edges of \<open>inner\<close>, as real numbers, lie within those of
  \<open>outer\<close>. For rectangles of non-negative extent (every \<^verbatim>\<open>intersectionRect\<close> is one)
  this says that \<open>inner\<close> is a subset of \<open>outer\<close>.
\<close>

definition covers :: "DOMRect \<Rightarrow> DOMRect \<Rightarrow> bool" where
  "covers outer inner \<longleftrightarrow>
     rect_x outer \<le> rect_x inner \<and>
     rect_y outer \<le> rect_y inner \<and>
     rect_x inner + rect_width inner \<le> rect_x outer + rect_width outer \<and>
     rect_y inner + rect_height inner \<le> rect_y outer + rect_height outer"

definition covers_all :: "DOMRect \<Rightarrow> DOMRect list \<Rightarrow> bool" where
  "covers_all outer rects = list_all (covers outer) rects"

text \<open>
  The rectangle that the loop and the last line compute from two or more rectangles:
  the least \<open>x\<close> and \<open>y\<close>, and the differences, as doubles, between the greatest sums
  \<open>x + width\<close>, \<open>y + height\<close>, as doubles, and these.
\<close>

definition bounding :: "DOMRect list \<Rightarrow> DOMRect" where
  "bounding rects =
     \<lparr>rect_x = Min (rect_x ` set rects),
      rect_y = Min (rect_y ` set rects),
      rect_width =
        double_sub (Max ((\<lambda>r. double_add (rect_x r) (rect_width r)) ` set rects))
                   (Min (rect_x ` set rects)),
      rect_height =
        double_sub (Max ((\<lambda>r. double_add (rect_y r) (rect_height r)) ` set rects))
                   (Min (rect_y ` set rects))\<rparr>"

text \<open>
  The coordinates and extents are far from the largest double, so that no sum or
  difference in \<^verbatim>\<open>mergeRects\<close> is an infinity.
\<close>

definition in_double_range :: "DOMRect list \<Rightarrow> bool" where
  "in_double_range rects =
     list_all (\<lambda>r. \<bar>rect_x r\<bar> \<le> 2 ^ 1000 \<and> \<bar>rect_y r\<bar> \<le> 2 ^ 1000 \<and>
                    \<bar>rect_width r\<bar> \<le> 2 ^ 1000 \<and> \<bar>rect_height r\<bar> \<le> 2 ^ 1000) rects"

text \<open>
  No rounding happens on the way: the sums \<open>x + width\<close> and \<open>y + height\<close> of the inputs
  and the two differences of the last line are doubles already, as they are for
  coordinates that are integers.
\<close>

definition exact_edges :: "DOMRect list \<Rightarrow> bool" where
  "exact_edges rects \<longleftrightarrow>
     list_all (\<lambda>r. double_add (rect_x r) (rect_width r) = rect_x r + rect_width r \<and>
                    double_add (rect_y r) (rect_height r) = rect_y r + rect_height r) rects \<and>
     rect_width (bounding rects) =
       Max ((\<lambda>r. rect_x r + rect_width r) ` set rects) - Min (rect_x ` set rects) \<and>
     rect_height (bounding rects) =
       Max ((\<lambda>r. rect_y r + rect_height r) ` set rects) - Min (rect_y ` set rects)"

subsection \<open>Finalized outlines\<close>

text \<open>
  \<^verbatim>\<open>OutlineData\<close> (the type is declared in \<^verbatim>\<open>types.ts\<close>; the fields are those that
  \<^verbatim>\<open>flushOutlines\<close> writes and the renderers read).
\<close>

record OutlineData =
  o_id :: int
  o_name :: string
  o_count :: nat
  o_x :: real
  o_y :: real
  o_width :: real
  o_height :: real
  o_didCommit :: nat

subsection \<open>\<^verbatim>\<open>getBatchedRectMap\<close>: the observer callback and the generator\<close>

record IntersectionObserverEntry =
  target :: node
  isIntersecting :: bool
  intersectionRect :: DOMRect

text \<open>
  Where the body of the async generator is suspended: at the \<^verbatim>\<open>await\<close> of the pending
  promise, at the \<^verbatim>\<open>yield\<close> (a batch has been handed out and \<^verbatim>\<open>next()\<close> has not been
  called again), or not at all because the loop has ended.
\<close>

datatype generator = Awaiting | AtYield | Returned

text \<open>
  The variables the generator and its callback share. \<open>resolveNext\<close> tells whether the
  variable of that name holds a function (\<open>True\<close>) or \<^verbatim>\<open>null\<close>; \<open>is_done\<close> is the flag
  \<^verbatim>\<open>done\<close>, set together with \<^verbatim>\<open>observer.disconnect()\<close>.
\<close>

record resolver =
  uniqueElements :: "node list"
  seenElements :: "node list"
  resolveNext :: bool
  is_done :: bool
  gen :: generator

text \<open>The \<^verbatim>\<open>for (const entry of entries)\<close> loop of the callback, on \<open>(seenElements, newEntries)\<close>.\<close>

fun collect_new ::
  "node list \<Rightarrow> IntersectionObserverEntry list \<Rightarrow> IntersectionObserverEntry list \<Rightarrow>
   node list \<times> IntersectionObserverEntry list" where
  "collect_new seen newEntries [] = (seen, newEntries)"
| "collect_new seen newEntries (entry # entries) =
     (if target entry \<notin> set seen
      then collect_new (Set_add seen (target entry)) (newEntries @ [entry]) entries
      else collect_new seen newEntries entries)"

text \<open>
  The callback passed to \<^verbatim>\<open>new IntersectionObserver\<close>. The second component is the
  argument of the call of \<^verbatim>\<open>resolveNext\<close> it makes, if it makes one: the new entries at
  the first \<^verbatim>\<open>if\<close>, after which the variable is \<^verbatim>\<open>null\<close>, or \<^verbatim>\<open>[]\<close> at the second.
\<close>

definition observer_callback ::
  "IntersectionObserverEntry list \<Rightarrow> resolver \<Rightarrow> resolver \<times> IntersectionObserverEntry list option" where
  "observer_callback entries r =
     (case collect_new (seenElements r) [] entries of
        (seen, newEntries) \<Rightarrow>
          let fire = (newEntries \<noteq> [] \<and> resolveNext r);
              r1 = r\<lparr>seenElements := seen, resolveNext := (if fire then False else resolveNext r)\<rparr>;
              v1 = (if fire then Some newEntries else None)
          in if length seen = length (uniqueElements r)
             then (r1\<lparr>is_done := True\<rparr>, if resolveNext r1 then Some [] else v1)
             else (r1, v1))"

text \<open>
  The head of \<^verbatim>\<open>while (!done)\<close>: either the generator returns, or it stores the resolve
  function of a new promise in \<open>resolveNext\<close> and awaits the promise.
\<close>

definition loop_head :: "resolver \<Rightarrow> resolver" where
  "loop_head r =
     (if is_done r then r\<lparr>gen := Returned\<rparr> else r\<lparr>resolveNext := True, gen := Awaiting\<rparr>)"

text \<open>
  The continuation of the \<^verbatim>\<open>await\<close> with the value of the promise: a non-empty array is
  yielded, an empty one leads back to the loop head.
\<close>

definition resume ::
  "IntersectionObserverEntry list \<Rightarrow> resolver \<Rightarrow> resolver \<times> IntersectionObserverEntry list option" where
  "resume entries r =
     (if entries \<noteq> [] then (r\<lparr>gen := AtYield\<rparr>, Some entries) else (loop_head r, None))"

text \<open>
  One notification of the browser, with the microtasks that follow it. The browser calls
  the callback with the queued entries of the observed targets only, never with an
  empty list, and never after \<^verbatim>\<open>disconnect()\<close>. The callback runs to its end; if it
  resolved the promise the generator is awaiting, the generator then runs up to its next
  suspension. Resolving a promise that is already settled does nothing. The second
  component is the batch yielded to the consumer, if any.
\<close>

definition notify ::
  "IntersectionObserverEntry list \<Rightarrow> resolver \<Rightarrow> resolver \<times> IntersectionObserverEntry list option" where
  "notify entries r =
     (let delivered = filter (\<lambda>entry. target entry \<in> set (uniqueElements r)) entries in
      if is_done r \<or> delivered = [] then (r, None)
      else
        (case observer_callback delivered r of
           (r1, None) \<Rightarrow> (r1, None)
         | (r1, Some v) \<Rightarrow> if gen r = Awaiting then resume v r1 else (r1, None)))"

text \<open>
  The consumer asks for the next batch (\<^verbatim>\<open>next()\<close> of the iterator) after it has
  received one: the generator continues after the \<^verbatim>\<open>yield\<close>, at the loop head.
\<close>

definition pull :: "resolver \<Rightarrow> resolver" where
  "pull r = (if gen r = AtYield then loop_head r else r)"

text \<open>
  The first \<^verbatim>\<open>next()\<close>: the body runs from its start to the first \<^verbatim>\<open>await\<close>. (Observing
  the elements is the browser's side: \<open>notify\<close> delivers entries of \<open>uniqueElements\<close>.)
\<close>

definition getBatchedRectMap_start :: "node list \<Rightarrow> resolver" where
  "getBatchedRectMap_start elements =
     loop_head \<lparr>uniqueElements = new_Set elements, seenElements = [],
                resolveNext = False, is_done = False, gen = Awaiting\<rparr>"

text \<open>
  The generator under a \<^verbatim>\<open>for await\<close> loop whose body does not await, as in
  \<^verbatim>\<open>flushOutlines\<close>: the loop asks for the next batch in the microtasks of the
  notification that produced the last one, before the browser can notify again. The
  list \<open>bursts\<close> holds the notifications of the browser in their order; the result is the
  list of batches yielded and the final state, \<open>gen = Returned\<close> when the sequence has
  signalled completion.
\<close>

fun for_await ::
  "resolver \<Rightarrow> IntersectionObserverEntry list list \<Rightarrow>
   IntersectionObserverEntry list list \<times> resolver" where
  "for_await r [] = ([], r)"
| "for_await r (burst # bursts) =
     (case notify burst r of
        (r1, None) \<Rightarrow> for_await r1 bursts
      | (r1, Some batch) \<Rightarrow>
          (case for_await (pull r1) bursts of (batches, r2) \<Rightarrow> (batch # batches, r2)))"

definition getBatchedRectMap ::
  "node list \<Rightarrow> IntersectionObserverEntry list list \<Rightarrow>
   IntersectionObserverEntry list list \<times> resolver" where
  "getBatchedRectMap elements bursts = for_await (getBatchedRectMap_start elements) bursts"

text \<open>
  The generator under any consumer: notifications and \<^verbatim>\<open>next()\<close> calls in the order in
  which they happen. A consumer that awaits something else between two \<^verbatim>\<open>next()\<close> calls
  lets notifications pass in between.
\<close>

datatype event = Notify "IntersectionObserverEntry list" | Pull

fun run_events ::
  "resolver \<Rightarrow> event list \<Rightarrow> IntersectionObserverEntry list list \<times> resolver" where
  "run_events r [] = ([], r)"
| "run_events r (Notify burst # events) =
     (case notify burst r of
        (r1, None) \<Rightarrow> run_events r1 events
      | (r1, Some batch) \<Rightarrow>
          (case run_events r1 events of (batches, r2) \<Rightarrow> (batch # batches, r2)))"
| "run_events r (Pull # events) = run_events (pull r) events"

subsection \<open>\<^verbatim>\<open>flushOutlines\<close>\<close>

text \<open>The first loop: the elements of all blueprints, in the order of the keys.\<close>

definition flush_elements :: "aggregator \<Rightarrow> node list" where
  "flush_elements st =
     concat (map (\<lambda>fiber. case blueprintMap st fiber of
                             None \<Rightarrow> []
                           | Some blueprint \<Rightarrow> filter instanceof_Element (bp_elements blueprint))
                 (blueprintMapKeys st))"

text \<open>
  The first loop of the body of \<^verbatim>\<open>for await\<close>: \<^verbatim>\<open>rect.width && rect.height\<close> holds of
  non-zero numbers.
\<close>

definition record_rects ::
  "(node \<rightharpoonup> DOMRect) \<Rightarrow> IntersectionObserverEntry list \<Rightarrow> (node \<rightharpoonup> DOMRect)" where
  "record_rects rectsMap entries =
     foldl (\<lambda>m entry.
              if isIntersecting entry \<and> rect_width (intersectionRect entry) \<noteq> 0
                 \<and> rect_height (intersectionRect entry) \<noteq> 0
              then m(target entry \<mapsto> intersectionRect entry) else m)
           rectsMap entries"

text \<open>
  The second loop of the body, for one key, together with the construction of its
  \<^verbatim>\<open>OutlineData\<close>: nothing for a key without blueprint or without resolved rectangle.
  \<open>getFiberId\<close> is bippy's function of that name, a parameter here. \<^verbatim>\<open>mergeRects\<close> is
  called with a non-empty list, so its result is a rectangle.
\<close>

definition outline_of ::
  "(nat \<Rightarrow> int) \<Rightarrow> (node \<rightharpoonup> DOMRect) \<Rightarrow> aggregator \<Rightarrow> nat \<Rightarrow> OutlineData list" where
  "outline_of getFiberId rectsMap st fiber =
     (case blueprintMap st fiber of
        None \<Rightarrow> []
      | Some blueprint \<Rightarrow>
          let rects = List.map_filter rectsMap (bp_elements blueprint) in
          if rects = [] then []
          else
            (case mergeRects rects of
               None \<Rightarrow> []
             | Some rect \<Rightarrow>
                 [\<lparr>o_id = getFiberId fiber,
                   o_name = bp_name blueprint,
                   o_count = bp_count blueprint,
                   o_x = rect_x rect,
                   o_y = rect_y rect,
                   o_width = rect_width rect,
                   o_height = rect_height rect,
                   o_didCommit = bp_didCommit blueprint\<rparr>]))"

definition outlineData ::
  "(nat \<Rightarrow> int) \<Rightarrow> (node \<rightharpoonup> DOMRect) \<Rightarrow> aggregator \<Rightarrow> OutlineData list" where
  "outlineData getFiberId rectsMap st =
     concat (map (outline_of getFiberId rectsMap st) (blueprintMapKeys st))"

text \<open>
  The last loop: every key is deleted from the map and from the key set. Deleting the
  current element while iterating a \<^verbatim>\<open>Set\<close> does not skip any other element.
\<close>

definition clear_blueprints :: "aggregator \<Rightarrow> aggregator" where
  "clear_blueprints st =
     foldl (\<lambda>s fiber. s\<lparr>blueprintMap := (blueprintMap s)(fiber := None),
                        blueprintMapKeys := removeAll fiber (blueprintMapKeys s)\<rparr>)
           st (blueprintMapKeys st)"

text \<open>
  What happens while \<^verbatim>\<open>flushOutlines\<close> is suspended: the browser notifies the observer,
  or React renders a fiber and \<^verbatim>\<open>onRender\<close> calls \<^verbatim>\<open>outlineFiber\<close>.
\<close>

datatype flush_event = Observed "IntersectionObserverEntry list" | Rendered fiber

text \<open>
  \<open>Completed\<close>: the promise of \<^verbatim>\<open>flushOutlines\<close> is fulfilled. \<open>Suspended\<close>: the function
  is still waiting in \<^verbatim>\<open>for await\<close> after the events given.
\<close>

datatype flush_status = Completed | Suspended

text \<open>
  The \<^verbatim>\<open>for await\<close> loop and what follows it. The result holds the status, the module
  state, and the arguments of the calls \<^verbatim>\<open>outlineRenderer?.renderOutlines(outlineData)\<close>
  in their order.
\<close>

fun flush_loop ::
  "(nat \<Rightarrow> int) \<Rightarrow> resolver \<Rightarrow> (node \<rightharpoonup> DOMRect) \<Rightarrow> aggregator \<Rightarrow> OutlineData list list \<Rightarrow>
   flush_event list \<Rightarrow> flush_status \<times> aggregator \<times> OutlineData list list" where
  "flush_loop getFiberId r rectsMap st calls [] =
     (if gen r = Returned then (Completed, clear_blueprints st, calls)
      else (Suspended, st, calls))"
| "flush_loop getFiberId r rectsMap st calls (Rendered fiber # events) =
     (if gen r = Returned then (Completed, clear_blueprints st, calls)
      else flush_loop getFiberId r rectsMap (outlineFiber fiber st) calls events)"
| "flush_loop getFiberId r rectsMap st calls (Observed burst # events) =
     (if gen r = Returned then (Completed, clear_blueprints st, calls)
      else
        (case notify burst r of
           (r1, None) \<Rightarrow> flush_loop getFiberId r1 rectsMap st calls events
         | (r1, Some entries) \<Rightarrow>
             let rectsMap' = record_rects rectsMap entries;
                 data = outlineData getFiberId rectsMap' st
             in flush_loop getFiberId (pull r1) rectsMap' st
                  (if data \<noteq> [] then calls @ [data] else calls) events))"

definition flushOutlines ::
  "(nat \<Rightarrow> int) \<Rightarrow> aggregator \<Rightarrow> flush_event list \<Rightarrow>
   flush_status \<times> aggregator \<times> OutlineData list list" where
  "flushOutlines getFiberId st events =
     flush_loop getFiberId (getBatchedRectMap_start (flush_elements st)) Map.empty st [] events"

text \<open>
  The two collections are filled and emptied together: every key of the map is in the
  key set.
\<close>

definition keys_cover :: "aggregator \<Rightarrow> bool" where
  "keys_cover st \<longleftrightarrow> dom (blueprintMap st) \<subseteq> set (blueprintMapKeys st)"

subsection \<open>\<^verbatim>\<open>CanvasOutlineRenderer\<close>\<close>

text \<open>
  \<^verbatim>\<open>String(id)\<close> is the platform's conversion of a number to a string, and a parameter
  \<open>String\<close> of the functions below. For an integer of magnitude below \<open>10\<^sup>2\<^sup>1\<close> the
  platform gives the decimal digits, with a minus sign when negative: that is \<open>decimal\<close>,
  which stands for \<open>String\<close> in the examples, whose ids are small.
\<close>

definition digit_char :: "nat \<Rightarrow> char" where
  "digit_char d = ''0123456789'' ! d"

fun digits :: "nat \<Rightarrow> string" where
  "digits n = (if n < 10 then [digit_char n] else digits (n div 10) @ [digit_char (n mod 10)])"

declare digits.simps [simp del]

definition decimal :: "int \<Rightarrow> string" where
  "decimal i = (if i < 0 then CHR ''-'' # digits (nat (- i)) else digits (nat i))"

text \<open>\<^verbatim>\<open>ActiveOutline\<close>: the fields of \<^verbatim>\<open>OutlineData\<close>, the frame counter and the target.\<close>

record ActiveOutline = OutlineData +
  frame :: nat
  targetX :: real
  targetY :: real
  targetWidth :: real
  targetHeight :: real

text \<open>
  The body of the loop of \<^verbatim>\<open>updateOutlines\<close> for one incoming record. The existing
  object is changed in place in the source; here the map holds the changed value.
\<close>

definition update_outline ::
  "(int \<Rightarrow> string) \<Rightarrow> (string \<rightharpoonup> ActiveOutline) \<Rightarrow> OutlineData \<Rightarrow>
   (string \<rightharpoonup> ActiveOutline)" where
  "update_outline String active d =
     (let outline =
            \<lparr>o_id = o_id d, o_name = o_name d, o_count = o_count d,
             o_x = o_x d, o_y = o_y d, o_width = o_width d, o_height = o_height d,
             o_didCommit = o_didCommit d,
             frame = 0,
             targetX = o_x d, targetY = o_y d,
             targetWidth = o_width d, targetHeight = o_height d\<rparr>;
          key = String (o_id outline)
      in case active key of
           Some existingOutline \<Rightarrow>
             active(key \<mapsto>
               existingOutline\<lparr>o_count := o_count existingOutline + 1,
                               frame := 0,
                               targetX := o_x d,
                               targetY := o_y d,
                               targetWidth := o_width d,
                               targetHeight := o_height d,
                               o_didCommit := o_didCommit d\<rparr>)
         | None \<Rightarrow> active(key \<mapsto> outline))"

definition updateOutlines ::
  "(int \<Rightarrow> string) \<Rightarrow> OutlineData list \<Rightarrow> (string \<rightharpoonup> ActiveOutline) \<Rightarrow>
   (string \<rightharpoonup> ActiveOutline)" where
  "updateOutlines String outlines active = foldl (update_outline String) active outlines"

text \<open>
  The renderer object, with what the host records of its effects: the number of
  \<^verbatim>\<open>requestAnimationFrame\<close> calls made (the handle returned is that number, never zero)
  and the number of \<^verbatim>\<open>drawCanvas\<close> calls made. \<open>ctx\<close> tells whether \<^verbatim>\<open>getContext\<close>
  returned a context.
\<close>

record CanvasOutlineRenderer =
  activeOutlines :: "string \<rightharpoonup> ActiveOutline"
  animationFrameId :: "nat option"
  ctx :: bool
  frames_requested :: nat
  canvas_draws :: nat

definition new_CanvasOutlineRenderer :: CanvasOutlineRenderer where
  "new_CanvasOutlineRenderer =
     \<lparr>activeOutlines = Map.empty, animationFrameId = None, ctx = True,
      frames_requested = 0, canvas_draws = 0\<rparr>"

definition requestAnimationFrame :: "CanvasOutlineRenderer \<Rightarrow> CanvasOutlineRenderer" where
  "requestAnimationFrame r =
     r\<lparr>frames_requested := Suc (frames_requested r),
       animationFrameId := Some (Suc (frames_requested r))\<rparr>"

definition canvas_renderOutlines ::
  "(int \<Rightarrow> string) \<Rightarrow> OutlineData list \<Rightarrow> CanvasOutlineRenderer \<Rightarrow>
   CanvasOutlineRenderer" where
  "canvas_renderOutlines String outlines r =
     (let r1 = r\<lparr>activeOutlines := updateOutlines String outlines (activeOutlines r)\<rparr> in
      if animationFrameId r1 = None then requestAnimationFrame r1 else r1)"

text \<open>\<^verbatim>\<open>dispose(): void {}\<close>\<close>

definition canvas_dispose :: "CanvasOutlineRenderer \<Rightarrow> CanvasOutlineRenderer" where
  "canvas_dispose r = r"

text \<open>
  The frame callback \<^verbatim>\<open>draw\<close>. \<^verbatim>\<open>drawCanvas\<close> lives in \<^verbatim>\<open>canvas.ts\<close> and is a
  parameter: it paints, changes the active outlines and tells whether to continue.
\<close>

definition canvas_draw ::
  "((string \<rightharpoonup> ActiveOutline) \<Rightarrow> (string \<rightharpoonup> ActiveOutline) \<times> bool) \<Rightarrow>
   CanvasOutlineRenderer \<Rightarrow> CanvasOutlineRenderer" where
  "canvas_draw drawCanvas r =
     (if \<not> ctx r then r
      else
        (case drawCanvas (activeOutlines r) of
           (active, shouldContinue) \<Rightarrow>
             let r1 = r\<lparr>activeOutlines := active, canvas_draws := Suc (canvas_draws r)\<rparr> in
             if shouldContinue then requestAnimationFrame r1
             else r1\<lparr>animationFrameId := None\<rparr>))"

subsection \<open>\<^verbatim>\<open>WorkerOutlineRenderer\<close>\<close>

definition OUTLINE_ARRAY_SIZE :: nat where
  "OUTLINE_ARRAY_SIZE = 7"

text \<open>
  An array buffer with its contents as a \<^verbatim>\<open>Float32Array\<close> shows them. A new buffer is
  zeroed, and the view of a buffer of \<open>n\<close> bytes has \<open>n div 4\<close> slots.
\<close>

record ArrayBuffer =
  byteLength :: nat
  float32 :: "real list"

definition new_ArrayBuffer :: "nat \<Rightarrow> ArrayBuffer" where
  "new_ArrayBuffer n = \<lparr>byteLength = n, float32 = replicate (n div 4) 0\<rparr>"

text \<open>
  \<^verbatim>\<open>sharedView[i] = v\<close>: the value is converted to single precision, and a store outside
  the view does nothing. The conversion \<open>fround\<close> is the platform's and a parameter.
\<close>

definition store :: "(real \<Rightarrow> real) \<Rightarrow> nat \<Rightarrow> real \<Rightarrow> ArrayBuffer \<Rightarrow> ArrayBuffer" where
  "store fround i v buf =
     (if i < length (float32 buf) then buf\<lparr>float32 := (float32 buf)[i := fround v]\<rparr> else buf)"

text \<open>
  The callback of \<^verbatim>\<open>outlines.forEach\<close>, on the buffer and on \<^verbatim>\<open>outlineNames\<close>, an array
  made by \<^verbatim>\<open>new Array(n)\<close> whose empty slots are \<open>None\<close>.
\<close>

fun pack_outline ::
  "(real \<Rightarrow> real) \<Rightarrow> ArrayBuffer \<times> string option list \<Rightarrow> nat \<times> OutlineData \<Rightarrow>
   ArrayBuffer \<times> string option list" where
  "pack_outline fround (buf, outlineNames) (i, outline) =
     (let scaledIndex = i * OUTLINE_ARRAY_SIZE;
          b0 = store fround scaledIndex (of_int (o_id outline)) buf;
          b1 = store fround (scaledIndex + 1) (of_nat (o_count outline)) b0;
          b2 = store fround (scaledIndex + 2) (o_x outline) b1;
          b3 = store fround (scaledIndex + 3) (o_y outline) b2;
          b4 = store fround (scaledIndex + 4) (o_width outline) b3;
          b5 = store fround (scaledIndex + 5) (o_height outline) b4;
          b6 = store fround (scaledIndex + 6) (of_nat (o_didCommit outline)) b5
      in (b6, outlineNames[i := Some (o_name outline)]))"

datatype worker_message =
  DrawOutlines ArrayBuffer "string option list"
| ScrollMessage real real

text \<open>
  The worker as the renderer sees it: the messages it has received, and whether it has
  been terminated. A message posted to a terminated worker is discarded.
\<close>

record WorkerOutlineRenderer =
  worker_received :: "worker_message list"
  worker_terminated :: bool

definition postMessage :: "worker_message \<Rightarrow> WorkerOutlineRenderer \<Rightarrow> WorkerOutlineRenderer" where
  "postMessage m w =
     (if worker_terminated w then w else w\<lparr>worker_received := worker_received w @ [m]\<rparr>)"

definition draw_outlines_message :: "(real \<Rightarrow> real) \<Rightarrow> OutlineData list \<Rightarrow> worker_message" where
  "draw_outlines_message fround outlines =
     (case foldl (pack_outline fround)
             (new_ArrayBuffer (length outlines * OUTLINE_ARRAY_SIZE * 4),
              replicate (length outlines) None)
             (List.enumerate 0 outlines) of
        (arrayBuffer, outlineNames) \<Rightarrow> DrawOutlines arrayBuffer outlineNames)"

definition worker_renderOutlines ::
  "(real \<Rightarrow> real) \<Rightarrow> OutlineData list \<Rightarrow> WorkerOutlineRenderer \<Rightarrow> WorkerOutlineRenderer" where
  "worker_renderOutlines fround outlines w = postMessage (draw_outlines_message fround outlines) w"

definition worker_scroll :: "real \<Rightarrow> real \<Rightarrow> WorkerOutlineRenderer \<Rightarrow> WorkerOutlineRenderer" where
  "worker_scroll deltaX deltaY w = postMessage (ScrollMessage deltaX deltaY) w"

definition worker_dispose :: "WorkerOutlineRenderer \<Rightarrow> WorkerOutlineRenderer" where
  "worker_dispose w = w\<lparr>worker_terminated := True\<rparr>"

text \<open>The seven slots of one record, before conversion.\<close>

definition outline_slots :: "OutlineData \<Rightarrow> real list" where
  "outline_slots outline =
     [of_int (o_id outline), of_nat (o_count outline), o_x outline, o_y outline,
      o_width outline, o_height outline, of_nat (o_didCommit outline)]"

subsection \<open>The scroll listener of \<^verbatim>\<open>getCanvasEl\<close>\<close>

text \<open>
  The variables of the listener, the callback of the pending \<^verbatim>\<open>setTimeout\<close> with the
  \<open>deltaX\<close>, \<open>deltaY\<close> it closes over, and the \<^verbatim>\<open>outlineRenderer?.scroll\<close> calls made.
\<close>

record scroll_listener =
  prevScrollX :: real
  prevScrollY :: real
  isScrollScheduled :: bool
  pending_timeout :: "(real \<times> real) option"
  scroll_calls :: "(real \<times> real) list"

definition new_scroll_listener :: "real \<Rightarrow> real \<Rightarrow> scroll_listener" where
  "new_scroll_listener scrollX scrollY =
     \<lparr>prevScrollX = scrollX, prevScrollY = scrollY, isScrollScheduled = False,
      pending_timeout = None, scroll_calls = []\<rparr>"

text \<open>The window has scrolled to \<open>(scrollX, scrollY)\<close> and the listener runs.\<close>

definition on_scroll :: "real \<Rightarrow> real \<Rightarrow> scroll_listener \<Rightarrow> scroll_listener" where
  "on_scroll scrollX scrollY s =
     (let deltaX = scrollX - prevScrollX s;
          deltaY = scrollY - prevScrollY s;
          s1 = s\<lparr>prevScrollX := scrollX, prevScrollY := scrollY\<rparr>
      in if \<not> isScrollScheduled s1
         then s1\<lparr>isScrollScheduled := True, pending_timeout := Some (deltaX, deltaY)\<rparr>
         else s1)"

text \<open>The timer of 32 ms fires.\<close>

definition on_timeout :: "scroll_listener \<Rightarrow> scroll_listener" where
  "on_timeout s =
     (case pending_timeout s of
        None \<Rightarrow> s
      | Some delta \<Rightarrow>
          s\<lparr>scroll_calls := scroll_calls s @ [delta], isScrollScheduled := False,
            pending_timeout := None\<rparr>)"

datatype scroll_event = ScrollTo real real | Timeout

fun scroll_step :: "scroll_listener \<Rightarrow> scroll_event \<Rightarrow> scroll_listener" where
  "scroll_step s (ScrollTo scrollX scrollY) = on_scroll scrollX scrollY s"
| "scroll_step s Timeout = on_timeout s"

definition scroll_run :: "scroll_event list \<Rightarrow> scroll_listener \<Rightarrow> scroll_listener" where
  "scroll_run events s = foldl scroll_step s events"

text \<open>
  For comparison, the debouncing of \<^verbatim>\<open>CanvasOutlineRenderer.resize\<close>: the call stores the
  size in \<^verbatim>\<open>this.size\<close>, and the callback of the timer reads \<^verbatim>\<open>this.size\<close> when it runs.
  \<open>canvas_sizes\<close> are the arguments of the \<^verbatim>\<open>setCanvasSize\<close> calls made by timers.
\<close>

record resize_debounce =
  this_size :: "real \<times> real"
  isResizeScheduled :: bool
  canvas_sizes :: "(real \<times> real) list"

definition resize :: "real \<times> real \<Rightarrow> resize_debounce \<Rightarrow> resize_debounce" where
  "resize size' s =
     (let s1 = s\<lparr>this_size := size'\<rparr> in
      if isResizeScheduled s1 then s1 else s1\<lparr>isResizeScheduled := True\<rparr>)"

definition resize_timeout :: "resize_debounce \<Rightarrow> resize_debounce" where
  "resize_timeout s =
     (if isResizeScheduled s
      then s\<lparr>canvas_sizes := canvas_sizes s @ [this_size s], isResizeScheduled := False\<rparr>
      else s)"

subsection \<open>Auxiliary notions for the statements\<close>

text \<open>The fibers of the \<open>Rendered\<close> events, in their order.\<close>

fun rendered_fibers :: "flush_event list \<Rightarrow> fiber list" where
  "rendered_fibers [] = []"
| "rendered_fibers (Rendered fiber # events) = fiber # rendered_fibers events"
| "rendered_fibers (Observed burst # events) = rendered_fibers events"

text \<open>
  The entries of a burst that the callback's loop moves to \<^verbatim>\<open>newEntries\<close>, given the set
  of targets seen so far: those whose target is not seen, the first of each target.
\<close>

fun fresh :: "node set \<Rightarrow> IntersectionObserverEntry list \<Rightarrow> IntersectionObserverEntry list" where
  "fresh S [] = []"
| "fresh S (entry # entries) =
     (if target entry \<in> S then fresh S entries
      else entry # fresh (insert (target entry) S) entries)"

text \<open>The targets that occur in a list of bursts.\<close>

definition reported :: "IntersectionObserverEntry list list \<Rightarrow> node set" where
  "reported bursts = (\<Union>burst \<in> set bursts. target ` set burst)"

text \<open>
  The generator waits for a notification and at least one element has not reported:
  the state of the resolver between two notifications under a \<^verbatim>\<open>for await\<close> loop.
\<close>

definition waiting :: "resolver \<Rightarrow> bool" where
  "waiting r \<longleftrightarrow>
     gen r = Awaiting \<and> resolveNext r \<and> \<not> is_done r \<and>
     distinct (uniqueElements r) \<and> distinct (seenElements r) \<and>
     set (seenElements r) \<subset> set (uniqueElements r)"

text \<open>The bursts of the \<open>Notify\<close> events, in their order.\<close>

fun notified :: "event list \<Rightarrow> IntersectionObserverEntry list list" where
  "notified [] = []"
| "notified (Notify burst # events) = burst # notified events"
| "notified (Pull # events) = notified events"

text \<open>
  What holds of the resolver's variables at every moment, whatever the consumer does,
  when there is at least one element: the seen elements are observed ones, \<^verbatim>\<open>done\<close> is
  set exactly when all have been seen, an awaiting generator has stored its resolve
  function and is not done, and a generator that has returned is done.
\<close>

definition consistent :: "resolver \<Rightarrow> bool" where
  "consistent r \<longleftrightarrow>
     distinct (uniqueElements r) \<and> distinct (seenElements r) \<and>
     set (seenElements r) \<subseteq> set (uniqueElements r) \<and>
     (is_done r \<longleftrightarrow> set (seenElements r) = set (uniqueElements r)) \<and>
     (gen r = Awaiting \<longrightarrow> resolveNext r \<and> \<not> is_done r) \<and>
     (gen r = Returned \<longrightarrow> is_done r)"

subsection \<open>Concrete inputs used in the examples\<close>

definition example_fiber :: "nat \<Rightarrow> bool \<Rightarrow> fiber" where
  "example_fiber k c =
     \<lparr>fiber_ref = k, isCompositeFiber = True, type_string = None,
      getDisplayName = Some ''App'', hostStateNodes = [Element 1], didFiberCommit = c\<rparr>"

text \<open>
  A component that renders nothing (\<^verbatim>\<open>return null\<close>): a composite fiber with a display
  name and no host fiber below it, so \<^verbatim>\<open>getNearestHostFibers\<close> gives \<^verbatim>\<open>[]\<close>.
\<close>

definition hollow_fiber :: fiber where
  "hollow_fiber =
     \<lparr>fiber_ref = 7, isCompositeFiber = True, type_string = None,
      getDisplayName = Some ''App'', hostStateNodes = [], didFiberCommit = True\<rparr>"

definition example_rect :: "real \<Rightarrow> real \<Rightarrow> real \<Rightarrow> real \<Rightarrow> DOMRect" where
  "example_rect a b w h = \<lparr>rect_x = a, rect_y = b, rect_width = w, rect_height = h\<rparr>"

text \<open>
  The doubles that the literals \<^verbatim>\<open>0.4\<close>, \<^verbatim>\<open>0.1\<close>, \<^verbatim>\<open>0.7\<close>, \<^verbatim>\<open>1.7\<close> and
  \<^verbatim>\<open>1.2999999999999998\<close> denote, and the rectangles \<^verbatim>\<open>DOMRect(0.4, 0, 0.1, 1)\<close> and
  \<^verbatim>\<open>DOMRect(0.7, 0, 1, 1)\<close>.
\<close>

definition dbl_0_4 :: real where
  "dbl_0_4 = 3602879701896397 / 2 ^ 53"

definition dbl_0_1 :: real where
  "dbl_0_1 = 3602879701896397 / 2 ^ 55"

definition dbl_0_7 :: real where
  "dbl_0_7 = 6305039478318694 / 2 ^ 53"

definition dbl_1_7 :: real where
  "dbl_1_7 = 7656119366529843 / 2 ^ 52"

definition dbl_1_3_below :: real where
  "dbl_1_3_below = 5854679515581644 / 2 ^ 52"

definition narrow_rect :: DOMRect where
  "narrow_rect = example_rect dbl_0_4 0 dbl_0_1 1"

definition wide_rect :: DOMRect where
  "wide_rect = example_rect dbl_0_7 0 1 1"

definition example_entry :: "nat \<Rightarrow> bool \<Rightarrow> IntersectionObserverEntry" where
  "example_entry n visible =
     \<lparr>target = Element n, isIntersecting = visible,
      intersectionRect = example_rect 10 10 50 50\<rparr>"

definition example_outline :: OutlineData where
  "example_outline =
     \<lparr>o_id = 1, o_name = ''App'', o_count = 3, o_x = 1, o_y = 2, o_width = 3, o_height = 4,
      o_didCommit = 1\<rparr>"

definition example_active :: ActiveOutline where
  "example_active =
     \<lparr>o_id = 1, o_name = ''App'', o_count = 9, o_x = 7, o_y = 8, o_width = 3, o_height = 4,
      o_didCommit = 0, frame = 12, targetX = 7, targetY = 8, targetWidth = 3, targetHeight = 4\<rparr>"

section \<open>Properties\<close>

subsection \<open>Double precision\<close>

lemma pow2_powr: "pow2 e = 2 powr (of_int e)"
proof (cases "0 \<le> e")
  case True
  then have "2 powr (of_int e) = (2::real) powr (real (nat e))" by simp
  also have "\<dots> = 2 ^ nat e" by (simp add: powr_realpow)
  finally show ?thesis using True by (simp add: pow2_def)
next
  case False
  define n where "n = nat (- e)"
  with False have e: "e = - int n" by simp
  have "2 powr (of_int e) = (2::real) powr (- real n)" by (simp add: e)
  also have "\<dots> = 1 / 2 ^ n" by (simp add: powr_minus powr_realpow divide_inverse)
  finally show ?thesis using False by (simp add: pow2_def n_def)
qed

lemma binade_eq:
  assumes "pow2 e \<le> \<bar>v\<bar>" and "\<bar>v\<bar> < pow2 (e + 1)" and "- 1022 \<le> e"
  shows "binade v = e"
proof -
  have "0 < pow2 e" by (simp add: pow2_powr)
  with assms(1) have pos: "0 < \<bar>v\<bar>" by linarith
  have "of_int e \<le> log 2 \<bar>v\<bar>"
    using assms(1) pos by (simp add: le_log_iff pow2_powr)
  moreover have "log 2 \<bar>v\<bar> < of_int e + 1"
    using assms(2) pos by (simp add: log_less_iff pow2_powr)
  ultimately have "\<lfloor>log 2 \<bar>v\<bar>\<rfloor> = e" by (simp add: floor_unique)
  with assms(3) show ?thesis by (simp add: binade_def)
qed

text \<open>Rounding a number whose exponent is known.\<close>

lemma to_double_at:
  assumes "pow2 e \<le> \<bar>v\<bar>" and "\<bar>v\<bar> < pow2 (e + 1)" and "- 1022 \<le> e"
  shows "to_double v = of_int (round_even (v / pow2 (e - 52))) * pow2 (e - 52)"
proof -
  have "0 < pow2 e" by (simp add: pow2_powr)
  with assms(1) have "v \<noteq> 0" by auto
  then show ?thesis by (simp add: to_double_def binade_eq [OF assms])
qed

lemma to_double_1: "to_double 1 = 1"
  using to_double_at [of 0 1] by (simp add: pow2_def round_even_def)

lemma to_double_10: "to_double 10 = 10"
  using to_double_at [of 3 10] by (simp add: pow2_def round_even_def)

lemma to_double_30: "to_double 30 = 30"
  using to_double_at [of 4 30] by (simp add: pow2_def round_even_def)

text \<open>
  \<^verbatim>\<open>0.4 + 0.1\<close> is \<^verbatim>\<open>0.5\<close> and \<^verbatim>\<open>0.7 + 1\<close> is \<^verbatim>\<open>1.7\<close>, but \<^verbatim>\<open>1.7 - 0.4\<close> lies midway
  between two doubles and goes to the even one, \<^verbatim>\<open>1.2999999999999998\<close>.
\<close>

lemma double_add_narrow: "double_add dbl_0_4 dbl_0_1 = 1 / 2"
  using to_double_at [of "- 1" "dbl_0_4 + dbl_0_1"]
  by (simp add: double_add_def pow2_def round_even_def dbl_0_4_def dbl_0_1_def)

lemma double_add_wide: "double_add dbl_0_7 1 = dbl_1_7"
  using to_double_at [of 0 "dbl_0_7 + 1"]
  by (simp add: double_add_def pow2_def round_even_def dbl_0_7_def dbl_1_7_def)

lemma double_sub_tie: "double_sub dbl_1_7 dbl_0_4 = dbl_1_3_below"
  using to_double_at [of 0 "dbl_1_7 - dbl_0_4"]
  by (simp add: double_sub_def pow2_def round_even_def dbl_1_7_def dbl_0_4_def dbl_1_3_below_def)

lemma double_unit: "double_add 0 1 = 1" "double_sub 1 0 = 1"
  by (simp_all add: double_add_def double_sub_def to_double_1)

lemma dbl_order: "min dbl_0_4 dbl_0_7 = dbl_0_4" "max (1 / 2) dbl_1_7 = dbl_1_7"
  by (simp_all add: dbl_0_4_def dbl_0_7_def dbl_1_7_def)

subsection \<open>\<^verbatim>\<open>mergeRects\<close>\<close>

lemma js_min_foldl:
  "foldl js_min (Some a) vs = Some (Min (insert a (set vs)))"
proof (induction vs arbitrary: a)
  case Nil
  show ?case by simp
next
  case (Cons v vs)
  have "Min (insert (min a v) (set vs)) = Min (insert a (insert v (set vs)))"
    by (cases "set vs = {}") (simp_all add: min.assoc)
  with Cons show ?case by (simp add: js_min_def)
qed

lemma js_max_foldl:
  "foldl js_max (Some a) vs = Some (Max (insert a (set vs)))"
proof (induction vs arbitrary: a)
  case Nil
  show ?case by simp
next
  case (Cons v vs)
  have "Max (insert (max a v) (set vs)) = Max (insert a (insert v (set vs)))"
    by (cases "set vs = {}") (simp_all add: max.assoc)
  with Cons show ?case by (simp add: js_max_def)
qed

lemma merge_step_foldl:
  "foldl merge_step (a, b, c, d) rects =
     (foldl js_min a (map rect_x rects),
      foldl js_min b (map rect_y rects),
      foldl js_max c (map (\<lambda>r. double_add (rect_x r) (rect_width r)) rects),
      foldl js_max d (map (\<lambda>r. double_add (rect_y r) (rect_height r)) rects))"
  by (induction rects arbitrary: a b c d) simp_all

lemma merge_loop_bounds:
  assumes "rects \<noteq> []"
  shows "foldl merge_step (None, None, None, None) rects =
     (Some (Min (rect_x ` set rects)),
      Some (Min (rect_y ` set rects)),
      Some (Max ((\<lambda>r. double_add (rect_x r) (rect_width r)) ` set rects)),
      Some (Max ((\<lambda>r. double_add (rect_y r) (rect_height r)) ` set rects)))"
proof -
  from assms obtain r rs where rects: "rects = r # rs" by (cases rects) auto
  show ?thesis
    unfolding rects
    by (simp add: merge_step_foldl js_min_foldl js_max_foldl js_min_def js_max_def)
qed

lemma mergeRects_many:
  assumes "2 \<le> length rects"
  shows "mergeRects rects = Some (bounding rects)"
proof -
  from assms have ne: "rects \<noteq> []" and len: "length rects \<noteq> 1" by auto
  show ?thesis
    using len by (simp add: mergeRects_def merge_loop_bounds [OF ne] bounding_def)
qed

lemma mergeRects_one_or_many:
  assumes "rects \<noteq> []"
  shows "mergeRects rects = Some (if length rects = 1 then hd rects else bounding rects)"
proof (cases "length rects = 1")
  case True
  then show ?thesis by (cases rects) (simp_all add: mergeRects_def)
next
  case False
  with assms have "2 \<le> length rects" by (cases rects) (auto simp: Suc_le_eq)
  with False show ?thesis by (simp add: mergeRects_many)
qed

text \<open>\<^verbatim>\<open>flushOutlines\<close> calls the function with non-empty lists only.\<close>

lemma mergeRects_defined: "rects \<noteq> [] \<Longrightarrow> mergeRects rects \<noteq> None"
  by (simp add: mergeRects_one_or_many)

text \<open>The left and the top edge are edges of inputs, and the least ones.\<close>

lemma bounding_left_top:
  assumes "rects \<noteq> []"
  shows "rect_x (bounding rects) \<in> rect_x ` set rects"
    and "rect_y (bounding rects) \<in> rect_y ` set rects"
    and "r \<in> set rects \<Longrightarrow> rect_x (bounding rects) \<le> rect_x r \<and> rect_y (bounding rects) \<le> rect_y r"
proof -
  from assms have ne: "rect_x ` set rects \<noteq> {}" "rect_y ` set rects \<noteq> {}" by simp_all
  show "rect_x (bounding rects) \<in> rect_x ` set rects"
    using Min_in [OF _ ne(1)] by (simp add: bounding_def)
  show "rect_y (bounding rects) \<in> rect_y ` set rects"
    using Min_in [OF _ ne(2)] by (simp add: bounding_def)
  show "r \<in> set rects \<Longrightarrow> rect_x (bounding rects) \<le> rect_x r \<and> rect_y (bounding rects) \<le> rect_y r"
    by (simp add: bounding_def)
qed

text \<open>Without rounding, the sums of the loop and the differences are the exact ones.\<close>

lemma exact_edges_bounding:
  assumes "exact_edges rects"
  shows "rect_x (bounding rects) + rect_width (bounding rects) =
           Max ((\<lambda>r. rect_x r + rect_width r) ` set rects)"
    and "rect_y (bounding rects) + rect_height (bounding rects) =
           Max ((\<lambda>r. rect_y r + rect_height r) ` set rects)"
proof -
  from assms have
    w: "rect_width (bounding rects) =
          Max ((\<lambda>r. rect_x r + rect_width r) ` set rects) - Min (rect_x ` set rects)" and
    h: "rect_height (bounding rects) =
          Max ((\<lambda>r. rect_y r + rect_height r) ` set rects) - Min (rect_y ` set rects)"
    by (simp_all add: exact_edges_def)
  have x: "rect_x (bounding rects) = Min (rect_x ` set rects)"
    and y: "rect_y (bounding rects) = Min (rect_y ` set rects)"
    by (simp_all add: bounding_def)
  show "rect_x (bounding rects) + rect_width (bounding rects) =
           Max ((\<lambda>r. rect_x r + rect_width r) ` set rects)"
    unfolding w x by simp
  show "rect_y (bounding rects) + rect_height (bounding rects) =
           Max ((\<lambda>r. rect_y r + rect_height r) ` set rects)"
    unfolding h y by simp
qed

lemma bounding_covers:
  assumes "exact_edges rects" and "r \<in> set rects"
  shows "covers (bounding rects) r"
proof -
  have "rect_x (bounding rects) \<le> rect_x r" "rect_y (bounding rects) \<le> rect_y r"
    using assms(2) by (simp_all add: bounding_def)
  moreover have "rect_x r + rect_width r \<le> rect_x (bounding rects) + rect_width (bounding rects)"
    using assms(2) by (simp add: exact_edges_bounding(1) [OF assms(1)])
  moreover have "rect_y r + rect_height r \<le> rect_y (bounding rects) + rect_height (bounding rects)"
    using assms(2) by (simp add: exact_edges_bounding(2) [OF assms(1)])
  ultimately show ?thesis by (simp add: covers_def)
qed

lemma bounding_least:
  assumes ex: "exact_edges rects" and ne: "rects \<noteq> []" and all: "\<forall>r \<in> set rects. covers b r"
  shows "covers b (bounding rects)"
proof -
  have fin: "finite (set rects)" and ne': "set rects \<noteq> {}" using ne by simp_all
  have "rect_x b \<le> rect_x (bounding rects)"
    using all fin ne' by (simp add: covers_def bounding_def)
  moreover have "rect_y b \<le> rect_y (bounding rects)"
    using all fin ne' by (simp add: covers_def bounding_def)
  moreover have "Max ((\<lambda>r. rect_x r + rect_width r) ` set rects) \<le> rect_x b + rect_width b"
    using all fin ne' by (simp add: covers_def)
  moreover have "Max ((\<lambda>r. rect_y r + rect_height r) ` set rects) \<le> rect_y b + rect_height b"
    using all fin ne' by (simp add: covers_def)
  ultimately show ?thesis
    by (simp add: covers_def exact_edges_bounding [OF ex])
qed

text \<open>
  On references: one reference is returned as it is and nothing is allocated; two or more
  give the reference of a new object that holds the merged rectangle, and every object
  allocated before is as it was.
\<close>

lemma mergeRects_refs_one:
  "mergeRects_refs heap [r] = (heap, Some r)"
  by (simp add: mergeRects_refs_def)

lemma mergeRects_refs_many:
  assumes "2 \<le> length refs"
  shows "mergeRects_refs heap refs =
           (heap @ [bounding (map (\<lambda>r. heap ! r) refs)], Some (length heap))"
proof -
  from assms have ne: "map (\<lambda>r. heap ! r) refs \<noteq> []" and len: "length refs \<noteq> 1" by auto
  show ?thesis
    using len
    by (simp add: mergeRects_refs_def merge_loop_bounds [OF ne] bounding_def new_DOMRect_def)
qed

lemma mergeRects_refs_value:
  assumes "refs \<noteq> []" and "list_all (\<lambda>r. r < length heap) refs"
  shows "\<exists>heap' rect. mergeRects_refs heap refs = (heap', Some rect) \<and>
           mergeRects (map (\<lambda>r. heap ! r) refs) = Some (heap' ! rect) \<and>
           take (length heap) heap' = heap \<and>
           map (\<lambda>r. heap' ! r) refs = map (\<lambda>r. heap ! r) refs \<and>
           (length refs = 1 \<longrightarrow> heap' = heap \<and> rect = hd refs) \<and>
           (2 \<le> length refs \<longrightarrow> length heap' = length heap + 1 \<and> rect = length heap)"
proof (cases "length refs = 1")
  case True
  then obtain r where r: "refs = [r]" by (cases refs) auto
  show ?thesis
    by (simp add: r mergeRects_refs_one mergeRects_def)
next
  case False
  with assms(1) have many: "2 \<le> length refs" by (cases refs) (auto simp: Suc_le_eq)
  then have many': "2 \<le> length (map (\<lambda>r. heap ! r) refs)" by simp
  show ?thesis
    using many False assms(2)
    by (simp add: mergeRects_refs_many [OF many] mergeRects_many [OF many'] list_all_iff
        nth_append)
qed

text \<open>
  \<^bold>\<open>Claim C2\<close>, as the code has it. Take a non-empty list of rectangles with finite
  coordinates far from the largest double. A list of one rectangle gives that rectangle
  back. Two or more give \<open>{x: minX, y: minY, width: maxX - minX, height: maxY - minY}\<close>,
  where \<open>minX\<close>, \<open>minY\<close> are the minima of the inputs' \<open>x\<close>, \<open>y\<close> and \<open>maxX\<close>, \<open>maxY\<close> the
  maxima of their \<open>x + width\<close>, \<open>y + height\<close>, the sums and the differences being the
  doubles that the platform computes. In both cases the left and the top edge of the
  result are edges of inputs and no input begins before them. Where no sum and no
  difference is rounded, the result covers every input and is covered by every rectangle
  that covers every input: it is the least bounding rectangle. The function changes no
  object: given the rectangles as references to objects of a heap, it returns the one
  reference it was given without allocating, or else the reference of one new object, and
  every object allocated before, the inputs among them, is as it was.
\<close>

theorem mergeRects_extreme_edges:
  assumes "rects \<noteq> []" and "in_double_range rects"
  shows "(length rects = 1 \<longrightarrow> mergeRects rects = Some (hd rects)) \<and>
     (2 \<le> length rects \<longrightarrow>
        mergeRects rects =
          Some \<lparr>rect_x = Min (rect_x ` set rects),
                rect_y = Min (rect_y ` set rects),
                rect_width =
                  double_sub (Max ((\<lambda>r. double_add (rect_x r) (rect_width r)) ` set rects))
                             (Min (rect_x ` set rects)),
                rect_height =
                  double_sub (Max ((\<lambda>r. double_add (rect_y r) (rect_height r)) ` set rects))
                             (Min (rect_y ` set rects))\<rparr>) \<and>
     (\<exists>m. mergeRects rects = Some m \<and>
          rect_x m \<in> rect_x ` set rects \<and> rect_y m \<in> rect_y ` set rects \<and>
          (\<forall>r \<in> set rects. rect_x m \<le> rect_x r \<and> rect_y m \<le> rect_y r)) \<and>
     (exact_edges rects \<longrightarrow>
        (\<exists>m. mergeRects rects = Some m \<and> covers_all m rects \<and>
             (\<forall>b. covers_all b rects \<longrightarrow> covers b m))) \<and>
     (\<forall>heap refs.
        list_all (\<lambda>r. r < length heap) refs \<and> map (\<lambda>r. heap ! r) refs = rects \<longrightarrow>
        (\<exists>heap' rect. mergeRects_refs heap refs = (heap', Some rect) \<and>
           mergeRects rects = Some (heap' ! rect) \<and>
           take (length heap) heap' = heap \<and>
           map (\<lambda>r. heap' ! r) refs = rects \<and>
           (length rects = 1 \<longrightarrow> heap' = heap \<and> rect = hd refs) \<and>
           (2 \<le> length rects \<longrightarrow> length heap' = length heap + 1 \<and> rect = length heap)))"
proof (intro conjI impI allI)
  fix heap refs
  assume "list_all (\<lambda>r. r < length heap) refs \<and> map (\<lambda>r. heap ! r) refs = rects"
  then have valid: "list_all (\<lambda>r. r < length heap) refs"
    and rects: "rects = map (\<lambda>r. heap ! r) refs" by simp_all
  from assms(1) have ne: "refs \<noteq> []" by (auto simp: rects)
  from mergeRects_refs_value [OF ne valid]
  show "\<exists>heap' rect. mergeRects_refs heap refs = (heap', Some rect) \<and>
           mergeRects rects = Some (heap' ! rect) \<and>
           take (length heap) heap' = heap \<and>
           map (\<lambda>r. heap' ! r) refs = rects \<and>
           (length rects = 1 \<longrightarrow> heap' = heap \<and> rect = hd refs) \<and>
           (2 \<le> length rects \<longrightarrow> length heap' = length heap + 1 \<and> rect = length heap)"
    unfolding rects length_map .
next
  assume "length rects = 1"
  then show "mergeRects rects = Some (hd rects)"
    by (simp add: mergeRects_one_or_many [OF assms(1)])
next
  assume "2 \<le> length rects"
  then show "mergeRects rects =
      Some \<lparr>rect_x = Min (rect_x ` set rects),
            rect_y = Min (rect_y ` set rects),
            rect_width =
              double_sub (Max ((\<lambda>r. double_add (rect_x r) (rect_width r)) ` set rects))
                         (Min (rect_x ` set rects)),
            rect_height =
              double_sub (Max ((\<lambda>r. double_add (rect_y r) (rect_height r)) ` set rects))
                         (Min (rect_y ` set rects))\<rparr>"
    by (simp add: mergeRects_many bounding_def)
next
  show "\<exists>m. mergeRects rects = Some m \<and>
          rect_x m \<in> rect_x ` set rects \<and> rect_y m \<in> rect_y ` set rects \<and>
          (\<forall>r \<in> set rects. rect_x m \<le> rect_x r \<and> rect_y m \<le> rect_y r)"
  proof (cases "length rects = 1")
    case True
    then obtain r where r: "rects = [r]" by (cases rects) auto
    then show ?thesis by (simp add: mergeRects_def)
  next
    case False
    then have "mergeRects rects = Some (bounding rects)"
      by (simp add: mergeRects_one_or_many [OF assms(1)])
    with bounding_left_top [OF assms(1)] show ?thesis by blast
  qed
next
  assume ex: "exact_edges rects"
  show "\<exists>m. mergeRects rects = Some m \<and> covers_all m rects \<and>
          (\<forall>b. covers_all b rects \<longrightarrow> covers b m)"
  proof (cases "length rects = 1")
    case True
    then obtain r where r: "rects = [r]" by (cases rects) auto
    then have "mergeRects rects = Some r" by (simp add: mergeRects_def)
    moreover have "covers_all r rects" by (simp add: r covers_all_def covers_def)
    moreover have "\<forall>b. covers_all b rects \<longrightarrow> covers b r" by (simp add: r covers_all_def)
    ultimately show ?thesis by blast
  next
    case False
    then have "mergeRects rects = Some (bounding rects)"
      by (simp add: mergeRects_one_or_many [OF assms(1)])
    moreover have "covers_all (bounding rects) rects"
      by (simp add: covers_all_def list_all_iff bounding_covers [OF ex])
    moreover have "\<forall>b. covers_all b rects \<longrightarrow> covers b (bounding rects)"
      using bounding_least [OF ex assms(1)] by (simp add: covers_all_def list_all_iff)
    ultimately show ?thesis by blast
  qed
qed

text \<open>
  Claim C2 as stated has the result contain every input. For \<^verbatim>\<open>DOMRect(0.4, 0, 0.1, 1)\<close>
  and \<^verbatim>\<open>DOMRect(0.7, 0, 1, 1)\<close> the width \<^verbatim>\<open>1.7 - 0.4\<close> is rounded down to
  \<^verbatim>\<open>1.2999999999999998\<close>, and the right edge of the result lies left of the right edge
  of the second input.
\<close>

theorem mergeRects_rounded_width_counterexample:
  "mergeRects [narrow_rect, wide_rect] = Some (example_rect dbl_0_4 0 dbl_1_3_below 1) \<and>
   \<not> covers (example_rect dbl_0_4 0 dbl_1_3_below 1) wide_rect"
proof -
  have "mergeRects [narrow_rect, wide_rect] = Some (example_rect dbl_0_4 0 dbl_1_3_below 1)"
    by (simp add: mergeRects_def narrow_rect_def wide_rect_def example_rect_def js_min_def
        js_max_def double_add_narrow double_add_wide double_unit dbl_order double_sub_tie)
  moreover have "dbl_0_4 + dbl_1_3_below < dbl_0_7 + 1"
    by (simp add: dbl_0_4_def dbl_1_3_below_def dbl_0_7_def)
  then have "\<not> covers (example_rect dbl_0_4 0 dbl_1_3_below 1) wide_rect"
    by (simp add: covers_def wide_rect_def example_rect_def)
  ultimately show ?thesis by blast
qed

text \<open>
  The two rectangles \<open>(0, 0, 10, 10)\<close> and \<open>(20, 20, 10, 10)\<close> of one instance, whose sums
  and differences are not rounded, merge into \<open>(0, 0, 30, 30)\<close>, which covers both; a
  single rectangle comes back as it is. As the objects \<open>0\<close> and \<open>1\<close> of a heap they are
  left as they were, and the result is the new object \<open>2\<close>; the single object \<open>0\<close> comes
  back as the reference \<open>0\<close>.
\<close>

theorem mergeRects_extreme_edges_witness:
  "mergeRects [example_rect 0 0 10 10, example_rect 20 20 10 10] = Some (example_rect 0 0 30 30) \<and>
   covers_all (example_rect 0 0 30 30) [example_rect 0 0 10 10, example_rect 20 20 10 10] \<and>
   mergeRects [example_rect 5 6 7 8] = Some (example_rect 5 6 7 8) \<and>
   (\<exists>heap'. mergeRects_refs [example_rect 0 0 10 10, example_rect 20 20 10 10] [0, 1] =
        (heap', Some 2) \<and>
      take 2 heap' = [example_rect 0 0 10 10, example_rect 20 20 10 10] \<and>
      heap' ! 2 = example_rect 0 0 30 30) \<and>
   mergeRects_refs [example_rect 5 6 7 8] [0] = ([example_rect 5 6 7 8], Some 0)"
proof -
  let ?rects = "[example_rect 0 0 10 10, example_rect 20 20 10 10]"
  let ?one = "[example_rect 5 6 7 8]"
  have sums: "double_add 0 10 = 10" "double_add 20 10 = 30" "double_sub 30 0 = 30"
    by (simp_all add: double_add_def double_sub_def to_double_10 to_double_30)
  have range: "in_double_range ?rects" "in_double_range ?one"
    by (simp_all add: in_double_range_def example_rect_def)
  have exact: "exact_edges ?rects"
    by (simp add: exact_edges_def bounding_def example_rect_def sums)
  note two = mergeRects_extreme_edges [of ?rects, OF _ range(1)]
  note single = mergeRects_extreme_edges [of ?one, OF _ range(2)]
  from two exact
  have many: "mergeRects ?rects = Some (example_rect 0 0 30 30)"
    and cov: "\<exists>m. mergeRects ?rects = Some m \<and> covers_all m ?rects"
    by (auto simp: example_rect_def sums)
  from single
  have one: "mergeRects ?one = Some (example_rect 5 6 7 8)"
    by simp
  have refs: "list_all (\<lambda>r. r < length ?rects) [0, 1] \<and> map (\<lambda>r. ?rects ! r) [0, 1] = ?rects"
    "list_all (\<lambda>r. r < length ?one) [0] \<and> map (\<lambda>r. ?one ! r) [0] = ?one"
    by simp_all
  have placed: "\<exists>heap'. mergeRects_refs ?rects [0, 1] = (heap', Some 2) \<and>
       take 2 heap' = ?rects \<and> heap' ! 2 = example_rect 0 0 30 30"
    using two [THEN conjunct2, THEN conjunct2, THEN conjunct2, THEN conjunct2, rule_format,
        OF _ refs(1)] many
    by (auto simp: numeral_2_eq_2)
  have alone: "mergeRects_refs ?one [0] = (?one, Some 0)"
    using single [THEN conjunct2, THEN conjunct2, THEN conjunct2, THEN conjunct2, rule_format,
        OF _ refs(2)]
    by auto
  from many cov one placed alone show ?thesis by auto
qed

subsection \<open>\<^verbatim>\<open>outlineFiber\<close>\<close>

lemma outlineFiber_other:
  "fiber_ref f \<noteq> k \<or> \<not> records f \<Longrightarrow> blueprintMap (outlineFiber f st) k = blueprintMap st k"
  by (auto simp: outlineFiber_def records_def split: option.splits)

lemma outlineFiber_existing:
  "blueprintMap st k = Some bp \<Longrightarrow> fiber_ref f = k \<Longrightarrow> records f \<Longrightarrow>
   blueprintMap (outlineFiber f st) k = Some (bp\<lparr>bp_count := bp_count bp + 1\<rparr>)"
  by (auto simp: outlineFiber_def records_def split: option.splits)

lemma outlineFiber_new:
  "blueprintMap st k = None \<Longrightarrow> fiber_ref f = k \<Longrightarrow> records f \<Longrightarrow>
   \<exists>bp. blueprintMap (outlineFiber f st) k = Some bp \<and> bp_count bp = 1 \<and>
     bp_didCommit bp = (if didFiberCommit f then 1 else 0)"
  by (auto simp: outlineFiber_def records_def split: option.splits)

lemma outlineFibers_Cons: "outlineFibers (f # fs) st = outlineFibers fs (outlineFiber f st)"
  by (simp add: outlineFibers_def)

lemma outlineFibers_existing:
  "blueprintMap st k = Some bp \<Longrightarrow>
   blueprintMap (outlineFibers fibers st) k =
     Some (bp\<lparr>bp_count := bp_count bp + length (filter (\<lambda>f. fiber_ref f = k \<and> records f) fibers)\<rparr>)"
proof (induction fibers arbitrary: st bp)
  case Nil
  then show ?case by (simp add: outlineFibers_def)
next
  case (Cons f fs)
  show ?case
  proof (cases "fiber_ref f = k \<and> records f")
    case True
    with Cons.prems have "blueprintMap (outlineFiber f st) k = Some (bp\<lparr>bp_count := bp_count bp + 1\<rparr>)"
      by (simp add: outlineFiber_existing)
    from Cons.IH [OF this] True show ?thesis by (simp add: outlineFibers_Cons)
  next
    case False
    then have "blueprintMap (outlineFiber f st) k = Some bp"
      using Cons.prems outlineFiber_other [of f k st] by auto
    from Cons.IH [OF this] False show ?thesis by (auto simp add: outlineFibers_Cons)
  qed
qed

lemma outlineFibers_fresh:
  assumes "blueprintMap st k = None"
    and "filter (\<lambda>f. fiber_ref f = k \<and> records f) fibers \<noteq> []"
  shows "\<exists>bp. blueprintMap (outlineFibers fibers st) k = Some bp \<and>
     bp_count bp = length (filter (\<lambda>f. fiber_ref f = k \<and> records f) fibers) \<and>
     bp_didCommit bp =
       (if didFiberCommit (hd (filter (\<lambda>f. fiber_ref f = k \<and> records f) fibers)) then 1 else 0)"
  using assms
proof (induction fibers arbitrary: st)
  case Nil
  then show ?case by simp
next
  case (Cons f fs)
  show ?case
  proof (cases "fiber_ref f = k \<and> records f")
    case True
    with Cons.prems(1) obtain bp where bp: "blueprintMap (outlineFiber f st) k = Some bp"
      "bp_count bp = 1" "bp_didCommit bp = (if didFiberCommit f then 1 else 0)"
      using outlineFiber_new [of st k f] by auto
    show ?thesis
      using True bp outlineFibers_existing [OF bp(1), of fs]
      by (simp add: outlineFibers_Cons)
  next
    case False
    then have "blueprintMap (outlineFiber f st) k = None"
      using Cons.prems(1) outlineFiber_other [of f k st] by auto
    from Cons.IH [OF this] Cons.prems(2) False show ?thesis
      by (auto simp add: outlineFibers_Cons)
  qed
qed

text \<open>
  \<^bold>\<open>Claim C1\<close>, as the code has it. Take any sequence of \<^verbatim>\<open>outlineFiber\<close> calls, made
  in a state that holds no blueprint for the identity \<open>k\<close>, in which \<open>N \<ge> 1\<close> calls
  reference \<open>k\<close> and pass the two early returns (calls for other identities may come in
  between). The resulting blueprint of \<open>k\<close> has \<open>count = N\<close>, and its \<open>didCommit\<close> is that
  of the \<^emph>\<open>first\<close> of these calls. A repeat call for an existing blueprint adds one to
  \<open>count\<close> and changes nothing else of the blueprint.
\<close>

theorem outlineFiber_count_and_first_didCommit:
  "(blueprintMap st k = None \<and> calls = filter (\<lambda>f. fiber_ref f = k \<and> records f) fibers \<and> calls \<noteq> []
      \<longrightarrow> (\<exists>bp. blueprintMap (outlineFibers fibers st) k = Some bp \<and>
             bp_count bp = length calls \<and>
             bp_didCommit bp = (if didFiberCommit (hd calls) then 1 else 0)))
   \<and> (blueprintMap st k = Some old \<and> fiber_ref f = k \<and> records f
      \<longrightarrow> blueprintMap (outlineFiber f st) k = Some (old\<lparr>bp_count := bp_count old + 1\<rparr>))"
  using outlineFibers_fresh [of st k fibers] outlineFiber_existing [of st k old f] by blast

text \<open>
  Claim C1 as stated asks for the last call's \<open>didCommit\<close>. Two calls for the identity
  \<open>7\<close>, the first of a fiber that did not commit and the second of one that did, leave
  \<open>didCommit = 0\<close>: the \<^verbatim>\<open>else\<close> branch is \<^verbatim>\<open>blueprint.count++\<close> and nothing more.
\<close>

theorem outlineFiber_last_didCommit_counterexample:
  "map_option bp_didCommit
     (blueprintMap (outlineFibers [example_fiber 7 False, example_fiber 7 True] empty_aggregator) 7)
   \<noteq> Some (if didFiberCommit (example_fiber 7 True) then 1 else 0)"
  by (simp add: outlineFibers_def outlineFiber_def example_fiber_def empty_aggregator_def
      fiber_name_def Set_add_def)

text \<open>
  The same two calls: the blueprint counts both and keeps the first \<open>didCommit\<close>. And a
  repeat call on a blueprint that has counted five renders.
\<close>

theorem outlineFiber_count_and_first_didCommit_witness:
  "(\<exists>bp. blueprintMap (outlineFibers [example_fiber 7 False, example_fiber 7 True] empty_aggregator) 7
          = Some bp \<and> bp_count bp = 2 \<and> bp_didCommit bp = 0) \<and>
   blueprintMap
     (outlineFiber (example_fiber 7 True)
        \<lparr>blueprintMap = [7 \<mapsto> \<lparr>bp_name = ''App'', bp_count = 5, bp_elements = [], bp_didCommit = 0\<rparr>],
         blueprintMapKeys = [7]\<rparr>) 7
     = Some \<lparr>bp_name = ''App'', bp_count = 6, bp_elements = [], bp_didCommit = 0\<rparr>"
  using outlineFiber_count_and_first_didCommit
    [of empty_aggregator 7 "[example_fiber 7 False, example_fiber 7 True]"
        "[example_fiber 7 False, example_fiber 7 True]"]
    outlineFiber_count_and_first_didCommit
    [of "\<lparr>blueprintMap = [7 \<mapsto> \<lparr>bp_name = ''App'', bp_count = 5, bp_elements = [], bp_didCommit = 0\<rparr>],
         blueprintMapKeys = [7]\<rparr>" 7 _ _
        "\<lparr>bp_name = ''App'', bp_count = 5, bp_elements = [], bp_didCommit = 0\<rparr>"
        "example_fiber 7 True"]
  by (simp add: example_fiber_def empty_aggregator_def records_def fiber_name_def numeral_2_eq_2)

subsection \<open>\<^verbatim>\<open>flushOutlines\<close>\<close>

lemma keys_cover_empty: "keys_cover empty_aggregator"
  by (simp add: keys_cover_def empty_aggregator_def)

lemma keys_cover_outlineFiber: "keys_cover st \<Longrightarrow> keys_cover (outlineFiber f st)"
  by (auto simp: keys_cover_def outlineFiber_def Set_add_def split: option.splits if_splits)

lemma filter_removeAll:
  "filter (\<lambda>x. x \<notin> set ks) (removeAll k xs) = filter (\<lambda>x. x \<notin> set (k # ks)) xs"
  by (induction xs) auto

lemma clear_fold_map:
  "blueprintMap
     (foldl (\<lambda>s fiber. s\<lparr>blueprintMap := (blueprintMap s)(fiber := None),
                          blueprintMapKeys := removeAll fiber (blueprintMapKeys s)\<rparr>) s ks) =
   (\<lambda>k. if k \<in> set ks then None else blueprintMap s k)"
proof (induction ks arbitrary: s)
  case Nil
  show ?case by simp
next
  case (Cons k ks)
  show ?case
    by (simp only: foldl_Cons Cons.IH) (simp add: fun_eq_iff)
qed

lemma clear_fold_keys:
  "blueprintMapKeys
     (foldl (\<lambda>s fiber. s\<lparr>blueprintMap := (blueprintMap s)(fiber := None),
                          blueprintMapKeys := removeAll fiber (blueprintMapKeys s)\<rparr>) s ks) =
   filter (\<lambda>k. k \<notin> set ks) (blueprintMapKeys s)"
proof (induction ks arbitrary: s)
  case Nil
  show ?case by simp
next
  case (Cons k ks)
  show ?case
    by (simp only: foldl_Cons Cons.IH) (simp add: filter_removeAll del: set_simps)
qed

lemma clear_blueprints_keys: "blueprintMapKeys (clear_blueprints st) = []"
  by (simp add: clear_blueprints_def clear_fold_keys)

lemma clear_blueprints_map:
  "keys_cover st \<Longrightarrow> blueprintMap (clear_blueprints st) = Map.empty"
  by (auto simp: clear_blueprints_def clear_fold_map keys_cover_def fun_eq_iff)

lemma flush_loop_completed:
  "keys_cover st \<Longrightarrow> flush_loop g r m st calls events = (Completed, st', calls') \<Longrightarrow>
   blueprintMap st' = Map.empty \<and> blueprintMapKeys st' = []"
proof (induction events arbitrary: r m st calls)
  case Nil
  then show ?case
    by (auto simp: clear_blueprints_keys clear_blueprints_map split: if_splits)
next
  case (Cons ev events)
  show ?case
  proof (cases "gen r = Returned")
    case True
    with Cons.prems show ?thesis
      by (cases ev) (auto simp: clear_blueprints_keys clear_blueprints_map)
  next
    case False
    show ?thesis
    proof (cases ev)
      case (Rendered f)
      with False Cons.prems(2)
      have "flush_loop g r m (outlineFiber f st) calls events = (Completed, st', calls')" by simp
      with Cons.IH keys_cover_outlineFiber [OF Cons.prems(1)] show ?thesis by blast
    next
      case (Observed burst)
      obtain r1 out where n: "notify burst r = (r1, out)" by (cases "notify burst r")
      show ?thesis
      proof (cases out)
        case None
        with n False Observed Cons.prems(2)
        have "flush_loop g r1 m st calls events = (Completed, st', calls')" by simp
        with Cons.IH Cons.prems(1) show ?thesis by blast
      next
        case (Some entries)
        with n False Observed Cons.prems(2)
        have "\<exists>m' c'. flush_loop g (pull r1) m' st c' events = (Completed, st', calls')"
          by (auto simp: Let_def)
        with Cons.IH Cons.prems(1) show ?thesis by blast
      qed
    qed
  qed
qed

text \<open>The flush keeps the invariant of the two collections, completed or not.\<close>

lemma keys_cover_clear: "keys_cover st \<Longrightarrow> keys_cover (clear_blueprints st)"
  by (simp add: keys_cover_def clear_blueprints_map [unfolded keys_cover_def] clear_blueprints_keys)

lemma flush_loop_keys_cover:
  "keys_cover st \<Longrightarrow> flush_loop g r m st calls events = (status, st', calls') \<Longrightarrow> keys_cover st'"
proof (induction events arbitrary: r m st calls)
  case Nil
  then show ?case by (auto simp: keys_cover_clear split: if_splits)
next
  case (Cons ev events)
  show ?case
  proof (cases "gen r = Returned")
    case True
    with Cons.prems show ?thesis by (cases ev) (auto simp: keys_cover_clear)
  next
    case False
    show ?thesis
    proof (cases ev)
      case (Rendered f)
      with False Cons.prems(2)
      have "flush_loop g r m (outlineFiber f st) calls events = (status, st', calls')" by simp
      with Cons.IH keys_cover_outlineFiber [OF Cons.prems(1)] show ?thesis by blast
    next
      case (Observed burst)
      with False Cons.prems(2)
      have "\<exists>r' m' c'. flush_loop g r' m' st c' events = (status, st', calls')"
        by (auto simp: Let_def split: prod.splits option.splits)
      with Cons.IH Cons.prems(1) show ?thesis by blast
    qed
  qed
qed

lemma keys_cover_flushOutlines:
  "keys_cover st \<Longrightarrow> flushOutlines g st events = (status, st', calls) \<Longrightarrow> keys_cover st'"
  unfolding flushOutlines_def by (rule flush_loop_keys_cover)

lemma notify_unobserved:
  "uniqueElements r = [] \<Longrightarrow> notify burst r = (r, None)"
  by (simp add: notify_def)

lemma start_empty:
  "getBatchedRectMap_start [] =
     \<lparr>uniqueElements = [], seenElements = [], resolveNext = True, is_done = False, gen = Awaiting\<rparr>"
  by (simp add: getBatchedRectMap_start_def loop_head_def new_Set_def)

lemma flush_loop_nothing_observed:
  "uniqueElements r = [] \<Longrightarrow> gen r \<noteq> Returned \<Longrightarrow>
   flush_loop g r m st calls events = (Suspended, outlineFibers (rendered_fibers events) st, calls)"
proof (induction events arbitrary: st)
  case Nil
  then show ?case by (simp add: outlineFibers_def)
next
  case (Cons ev events)
  then show ?case
    by (cases ev) (simp_all add: notify_unobserved outlineFibers_Cons)
qed


lemma flushOutlines_nothing_to_observe:
  "flush_elements st = [] \<Longrightarrow>
   flushOutlines g st events = (Suspended, outlineFibers (rendered_fibers events) st, [])"
  by (simp add: flushOutlines_def start_empty flush_loop_nothing_observed)


text \<open>
  An instance rendered twice before the flush, its element visible at \<open>(10, 10, 50, 50)\<close>:
  one render call with one outline of count \<open>2\<close>, and the map is empty afterwards.
\<close>

lemma flushOutlines_two_renders_one_outline:
  "flushOutlines int (outlineFibers [example_fiber 7 False, example_fiber 7 True] empty_aggregator)
       [Observed [example_entry 1 True]]
     = (Completed, empty_aggregator,
        [[\<lparr>o_id = 7, o_name = ''App'', o_count = 2, o_x = 10, o_y = 10, o_width = 50,
            o_height = 50, o_didCommit = 0\<rparr>]])"
  by (simp add: flushOutlines_def outlineFibers_def outlineFiber_def example_fiber_def
        empty_aggregator_def fiber_name_def Set_add_def flush_elements_def
        getBatchedRectMap_start_def loop_head_def new_Set_def notify_def observer_callback_def
        example_entry_def example_rect_def resume_def pull_def record_rects_def outlineData_def
        outline_of_def List.map_filter_def mergeRects_def clear_blueprints_def)

text \<open>
  \<^bold>\<open>Claim C6.\<close> Whenever \<^verbatim>\<open>flushOutlines\<close> completes (the resolver has signalled the end
  of the sequence), the blueprint map and the key set are empty afterwards: every
  blueprint of the cycle is removed, whether or not a rectangle was ever resolved for it,
  and so is every blueprint recorded while the flush was suspended. The premise
  \<open>keys_cover\<close> holds of the empty state and is kept by \<^verbatim>\<open>outlineFiber\<close> and by
  \<^verbatim>\<open>flushOutlines\<close>.
\<close>

theorem flushOutlines_clears_blueprints:
  assumes "keys_cover st"
    and "flushOutlines getFiberId st events = (Completed, st', calls)"
  shows "blueprintMap st' = Map.empty \<and> blueprintMapKeys st' = []"
  using assms unfolding flushOutlines_def by (rule flush_loop_completed)

text \<open>
  One blueprint whose only element reports as not intersecting: no rectangle, no render
  call, and the blueprint is gone when the flush completes.
\<close>

theorem flushOutlines_clears_blueprints_witness:
  "flushOutlines int (outlineFibers [example_fiber 7 False] empty_aggregator)
       [Observed [example_entry 1 False]]
     = (Completed, empty_aggregator, [])"
proof -
  let ?st = "outlineFibers [example_fiber 7 False] empty_aggregator"
  let ?evs = "[Observed [example_entry 1 False]]"
  have run: "flushOutlines int ?st ?evs = (Completed, clear_blueprints ?st, [])"
    by (simp add: flushOutlines_def outlineFibers_def outlineFiber_def example_fiber_def
        empty_aggregator_def fiber_name_def Set_add_def flush_elements_def
        getBatchedRectMap_start_def loop_head_def new_Set_def notify_def observer_callback_def
        example_entry_def resume_def pull_def record_rects_def outlineData_def outline_of_def
        List.map_filter_def)
  have cover: "keys_cover ?st"
    by (simp add: outlineFibers_def keys_cover_outlineFiber keys_cover_empty)
  from flushOutlines_clears_blueprints [OF cover run]
  have "clear_blueprints ?st = empty_aggregator"
    by (simp add: empty_aggregator_def)
  with run show ?thesis by simp
qed




subsection \<open>\<^verbatim>\<open>getBatchedRectMap\<close>\<close>

lemma Set_add_foldl:
  "distinct acc \<Longrightarrow>
   distinct (foldl Set_add acc vs) \<and> set (foldl Set_add acc vs) = set acc \<union> set vs"
  by (induction vs arbitrary: acc) (auto simp: Set_add_def)

lemma new_Set_distinct: "distinct (new_Set vs)"
  using Set_add_foldl [of "[]" vs] by (simp add: new_Set_def)

lemma new_Set_set: "set (new_Set vs) = set vs"
  using Set_add_foldl [of "[]" vs] by (simp add: new_Set_def)

lemma collect_new_fresh:
  "collect_new seen acc entries =
     (seen @ map target (fresh (set seen) entries), acc @ fresh (set seen) entries)"
  by (induction entries arbitrary: seen acc) (simp_all add: Set_add_def)

lemma fresh_targets: "target ` set (fresh S entries) = target ` set entries - S"
  by (induction entries arbitrary: S) auto

lemma fresh_distinct: "distinct (map target (fresh S entries))"
proof (induction entries arbitrary: S)
  case Nil
  show ?case by simp
next
  case (Cons entry entries)
  have "target entry \<notin> target ` set (fresh (insert (target entry) S) entries)"
    by (simp add: fresh_targets)
  with Cons show ?case by simp
qed

lemma fresh_subset: "set (fresh S entries) \<subseteq> set entries"
  by (induction entries arbitrary: S) auto

lemma waiting_length:
  assumes "waiting r"
  shows "length (seenElements r) < length (uniqueElements r)"
proof -
  from assms have "card (set (seenElements r)) < card (set (uniqueElements r))"
    by (simp add: waiting_def psubset_card_mono)
  with assms show ?thesis by (simp add: waiting_def distinct_card)
qed

lemma start_waiting:
  assumes "elements \<noteq> []"
  shows "waiting (getBatchedRectMap_start elements)"
    and "uniqueElements (getBatchedRectMap_start elements) = new_Set elements"
    and "seenElements (getBatchedRectMap_start elements) = []"
proof -
  from assms have "set elements \<noteq> {}" by simp
  then show "waiting (getBatchedRectMap_start elements)"
    by (auto simp: waiting_def getBatchedRectMap_start_def loop_head_def new_Set_distinct new_Set_set)
qed (simp_all add: getBatchedRectMap_start_def loop_head_def)

text \<open>One notification and the \<^verbatim>\<open>next()\<close> that follows a yielded batch.\<close>

lemma notify_waiting_none:
  assumes "waiting r"
    and "fresh (set (seenElements r)) (filter (\<lambda>e. target e \<in> set (uniqueElements r)) burst) = []"
  shows "notify burst r = (r, None)"
proof -
  from waiting_length [OF assms(1)]
  have "length (seenElements r) \<noteq> length (uniqueElements r)" by simp
  with assms(2) show ?thesis
    by (simp add: notify_def observer_callback_def collect_new_fresh Let_def)
qed

lemma notify_waiting_some:
  assumes "gen r = Awaiting" and "resolveNext r" and "\<not> is_done r"
    and "N = fresh (set (seenElements r)) (filter (\<lambda>e. target e \<in> set (uniqueElements r)) burst)"
    and "N \<noteq> []"
  shows "notify burst r =
     (r\<lparr>seenElements := seenElements r @ map target N, resolveNext := False,
        is_done := (length (seenElements r @ map target N) = length (uniqueElements r)),
        gen := AtYield\<rparr>, Some N)"
proof -
  from assms(4,5) have "filter (\<lambda>e. target e \<in> set (uniqueElements r)) burst \<noteq> []" by auto
  with assms show ?thesis
    by (simp add: notify_def observer_callback_def collect_new_fresh resume_def Let_def)
qed

lemma for_await_done: "is_done r \<Longrightarrow> for_await r bursts = ([], r)"
  by (induction bursts) (simp_all add: notify_def)

lemma for_await_waiting:
  assumes "waiting r" and "for_await r bursts = (batches, r')"
  shows "distinct (map target (concat batches)) \<and>
     set (map target (concat batches)) =
       (reported bursts \<inter> set (uniqueElements r)) - set (seenElements r) \<and>
     (gen r' = Returned \<longleftrightarrow> set (uniqueElements r) \<subseteq> set (seenElements r) \<union> reported bursts)"
  using assms
proof (induction bursts arbitrary: r batches)
  case Nil
  then show ?case by (auto simp: reported_def waiting_def)
next
  case (Cons burst bursts)
  let ?U = "set (uniqueElements r)" and ?S = "set (seenElements r)"
  define N where "N = fresh ?S (filter (\<lambda>e. target e \<in> ?U) burst)"
  have tN: "target ` set N = (target ` set burst \<inter> ?U) - ?S"
    by (auto simp: N_def fresh_targets)
  have dN: "distinct (map target N)" by (simp add: N_def fresh_distinct)
  have rep: "reported (burst # bursts) = target ` set burst \<union> reported bursts"
    by (simp add: reported_def)
  from Cons.prems(1) have w: "gen r = Awaiting" "resolveNext r" "\<not> is_done r"
    "distinct (uniqueElements r)" "distinct (seenElements r)" "?S \<subset> ?U"
    by (simp_all add: waiting_def)
  show ?case
  proof (cases "N = []")
    case True
    then have "notify burst r = (r, None)"
      using notify_waiting_none [OF Cons.prems(1)] by (simp add: N_def)
    with Cons.prems(2) have "for_await r bursts = (batches, r')" by simp
    from Cons.IH [OF Cons.prems(1) this] have
      d: "distinct (map target (concat batches))" and
      t: "set (map target (concat batches)) = (reported bursts \<inter> ?U) - ?S" and
      g: "gen r' = Returned \<longleftrightarrow> ?U \<subseteq> ?S \<union> reported bursts"
      by simp_all
    from tN True have old: "target ` set burst \<inter> ?U \<subseteq> ?S" by auto
    have "set (map target (concat batches)) = (reported (burst # bursts) \<inter> ?U) - ?S"
      using t old unfolding rep by blast
    moreover have "gen r' = Returned \<longleftrightarrow> ?U \<subseteq> ?S \<union> reported (burst # bursts)"
      using g old unfolding rep by blast
    ultimately show ?thesis using d by blast
  next
    case False
    define seen' where "seen' = seenElements r @ map target N"
    define r1 where "r1 = r\<lparr>seenElements := seen', resolveNext := False,
        is_done := (length seen' = length (uniqueElements r)), gen := AtYield\<rparr>"
    have n: "notify burst r = (r1, Some N)"
      using notify_waiting_some [OF w(1,2,3) N_def False] by (simp add: r1_def seen'_def)
    have ds: "distinct seen'" and ss: "set seen' = ?S \<union> target ` set N"
      using w(5) dN tN by (auto simp: seen'_def)
    have sub: "set seen' \<subseteq> ?U" using w(6) tN ss by auto
    obtain bs where bs: "for_await (pull r1) bursts = (bs, r')" and batches: "batches = N # bs"
      using Cons.prems(2) n by (auto split: prod.splits)
    show ?thesis
    proof (cases "length seen' = length (uniqueElements r)")
      case True
      then have "card (set seen') = card ?U" using ds w(4) by (simp add: distinct_card)
      with sub have eq: "set seen' = ?U" by (simp add: card_subset_eq)
      from True have "is_done (pull r1)" and g: "gen (pull r1) = Returned"
        by (simp_all add: pull_def r1_def loop_head_def)
      with bs for_await_done [of "pull r1" bursts] have "bs = []" "r' = pull r1" by simp_all
      with batches g dN tN eq ss show ?thesis unfolding rep by auto
    next
      case False
      with sub ds w(4) have "set seen' \<noteq> ?U" by (metis distinct_card)
      with sub have "set seen' \<subset> ?U" by blast
      with False ds w(4) have w': "waiting (pull r1)"
        by (simp add: waiting_def pull_def r1_def loop_head_def)
      have u': "uniqueElements (pull r1) = uniqueElements r"
        and s': "seenElements (pull r1) = seen'"
        using False by (simp_all add: pull_def r1_def loop_head_def)
      from Cons.IH [OF w' bs] have
        d: "distinct (map target (concat bs))" and
        t: "set (map target (concat bs)) = (reported bursts \<inter> ?U) - set seen'" and
        g: "gen r' = Returned \<longleftrightarrow> ?U \<subseteq> set seen' \<union> reported bursts"
        by (simp_all add: u' s')
      have "distinct (map target (concat batches))"
        using d dN t ss by (auto simp: batches)
      moreover have "set (map target (concat batches)) = (reported (burst # bursts) \<inter> ?U) - ?S"
        using t tN ss unfolding rep batches by auto
      moreover have "gen r' = Returned \<longleftrightarrow> ?U \<subseteq> ?S \<union> reported (burst # bursts)"
        using g tN ss unfolding rep by auto
      ultimately show ?thesis by blast
    qed
  qed
qed

text \<open>The same under any consumer: what every notification and every \<^verbatim>\<open>next()\<close> keeps.\<close>

lemma same_length_iff:
  assumes "distinct xs" and "distinct ys" and "set xs \<subseteq> set ys"
  shows "length xs = length ys \<longleftrightarrow> set xs = set ys"
proof
  assume "length xs = length ys"
  with assms have "card (set xs) = card (set ys)" by (simp add: distinct_card)
  with assms(3) show "set xs = set ys" by (simp add: card_subset_eq)
next
  assume "set xs = set ys"
  with assms show "length xs = length ys" by (metis distinct_card)
qed

lemma start_consistent:
  assumes "elements \<noteq> []"
  shows "consistent (getBatchedRectMap_start elements)"
proof -
  from assms have "set elements \<noteq> {}" by simp
  then show ?thesis
    by (auto simp: consistent_def getBatchedRectMap_start_def loop_head_def new_Set_distinct
        new_Set_set)
qed

lemma pull_consistent:
  "consistent r \<Longrightarrow> consistent (pull r)"
  by (auto simp: consistent_def pull_def loop_head_def)

lemma pull_fields:
  "uniqueElements (pull r) = uniqueElements r"
  "seenElements (pull r) = seenElements r"
  "is_done (pull r) = is_done r"
  by (simp_all add: pull_def loop_head_def)

lemma notify_consistent:
  assumes c: "consistent r" and n: "notify burst r = (r1, out)"
  shows "consistent r1 \<and> uniqueElements r1 = uniqueElements r \<and>
     set (seenElements r1) =
       set (seenElements r) \<union> (target ` set burst \<inter> set (uniqueElements r)) \<and>
     (\<forall>N. out = Some N \<longrightarrow>
        distinct (map target N) \<and> target ` set N \<inter> set (seenElements r) = {} \<and>
        target ` set N \<subseteq> set (seenElements r1))"
proof -
  let ?U = "uniqueElements r" and ?S = "seenElements r"
  define D where "D = filter (\<lambda>e. target e \<in> set ?U) burst"
  define N where "N = fresh (set ?S) D"
  define seen' where "seen' = ?S @ map target N"
  have tD: "target ` set D = target ` set burst \<inter> set ?U" by (auto simp: D_def)
  have tN: "target ` set N = (target ` set burst \<inter> set ?U) - set ?S"
    by (simp add: N_def fresh_targets tD)
  have dN: "distinct (map target N)" by (simp add: N_def fresh_distinct)
  from c have cs: "distinct ?U" "distinct ?S" "set ?S \<subseteq> set ?U"
    "is_done r \<longleftrightarrow> set ?S = set ?U" "gen r = Awaiting \<longrightarrow> resolveNext r \<and> \<not> is_done r"
    "gen r = Returned \<longrightarrow> is_done r"
    unfolding consistent_def by blast+
  have ss: "set seen' = set ?S \<union> (target ` set burst \<inter> set ?U)"
    using tN by (auto simp: seen'_def)
  have ds: "distinct seen'" using cs(2) dN tN by (auto simp: seen'_def)
  have sub: "set seen' \<subseteq> set ?U" using ss cs(3) by auto
  have len: "length seen' = length ?U \<longleftrightarrow> set seen' = set ?U"
    by (rule same_length_iff [OF ds cs(1) sub])
  show ?thesis
  proof (cases "is_done r \<or> D = []")
    case True
    then have "notify burst r = (r, None)" by (auto simp: notify_def D_def)
    with n have r1: "r1 = r" "out = None" by simp_all
    from True have "target ` set burst \<inter> set ?U \<subseteq> set ?S"
      using cs(4) tD by auto
    with c show ?thesis by (auto simp: r1)
  next
    case False
    then have nd: "\<not> is_done r" and D: "D \<noteq> []" by simp_all
    have quiet: "length seen' \<noteq> length ?U" if "N = []"
    proof -
      from that have "seen' = ?S" by (simp add: seen'_def)
      with nd cs(4) len show ?thesis by simp
    qed
    have n': "notify burst r =
        (case observer_callback D r of
           (r1, None) \<Rightarrow> (r1, None)
         | (r1, Some v) \<Rightarrow> if gen r = Awaiting then resume v r1 else (r1, None))"
      using nd D by (simp add: notify_def D_def [symmetric])
    have u1: "uniqueElements r1 = ?U"
      using n quiet unfolding n'
      by (auto simp: observer_callback_def collect_new_fresh resume_def loop_head_def Let_def
          N_def [symmetric] seen'_def [symmetric] split: if_splits)
    have s1: "seenElements r1 = seen'"
      using n quiet unfolding n'
      by (auto simp: observer_callback_def collect_new_fresh resume_def loop_head_def Let_def
          N_def [symmetric] seen'_def [symmetric] split: if_splits)
    have d1: "is_done r1 \<longleftrightarrow> length seen' = length ?U"
      using n quiet nd unfolding n'
      by (auto simp: observer_callback_def collect_new_fresh resume_def loop_head_def Let_def
          N_def [symmetric] seen'_def [symmetric] split: if_splits)
    have g1: "gen r1 = (if gen r = Awaiting \<and> N \<noteq> [] then AtYield else gen r)"
      using n quiet cs(5) unfolding n'
      by (auto simp: observer_callback_def collect_new_fresh resume_def loop_head_def Let_def
          N_def [symmetric] seen'_def [symmetric] split: if_splits)
    have rn1: "gen r = Awaiting \<longrightarrow> N = [] \<longrightarrow> resolveNext r1"
      using n quiet cs(5) unfolding n'
      by (auto simp: observer_callback_def collect_new_fresh resume_def loop_head_def Let_def
          N_def [symmetric] seen'_def [symmetric] split: if_splits)
    have o1: "out = (if gen r = Awaiting \<and> N \<noteq> [] then Some N else None)"
      using n quiet cs(5) unfolding n'
      by (auto simp: observer_callback_def collect_new_fresh resume_def loop_head_def Let_def
          N_def [symmetric] seen'_def [symmetric] split: if_splits)
    have "consistent r1"
      unfolding consistent_def u1 s1 d1 g1
      using cs(1,5,6) ds sub len nd quiet rn1 by auto
    moreover have "target ` set N \<inter> set ?S = {}" using tN by auto
    moreover have "target ` set N \<subseteq> set seen'" using tN ss by auto
    ultimately show ?thesis using dN ss u1 s1 o1 by simp
  qed
qed

lemma run_events_consistent:
  assumes "consistent r" and "run_events r events = (batches, r')"
  shows "consistent r' \<and> uniqueElements r' = uniqueElements r \<and>
     set (seenElements r') =
       set (seenElements r) \<union> (reported (notified events) \<inter> set (uniqueElements r)) \<and>
     distinct (map target (concat batches)) \<and>
     target ` set (concat batches) \<inter> set (seenElements r) = {} \<and>
     target ` set (concat batches) \<subseteq> set (seenElements r')"
  using assms
proof (induction events arbitrary: r batches)
  case Nil
  then show ?case by (simp add: reported_def)
next
  case (Cons ev events)
  show ?case
  proof (cases ev)
    case Pull
    with Cons.prems(2) have run: "run_events (pull r) events = (batches, r')" by simp
    have h: "consistent r' \<and> uniqueElements r' = uniqueElements r \<and>
       set (seenElements r') =
         set (seenElements r) \<union> (reported (notified events) \<inter> set (uniqueElements r)) \<and>
       distinct (map target (concat batches)) \<and>
       target ` set (concat batches) \<inter> set (seenElements r) = {} \<and>
       target ` set (concat batches) \<subseteq> set (seenElements r')"
      using Cons.IH [OF pull_consistent [OF Cons.prems(1)] run] unfolding pull_fields .
    show ?thesis unfolding Pull notified.simps by (rule h)
  next
    case (Notify burst)
    obtain r1 out where n: "notify burst r = (r1, out)" by (cases "notify burst r")
    from notify_consistent [OF Cons.prems(1) n] have
      c1: "consistent r1" and u1: "uniqueElements r1 = uniqueElements r" and
      s1: "set (seenElements r1) =
             set (seenElements r) \<union> (target ` set burst \<inter> set (uniqueElements r))" and
      o1: "\<forall>N. out = Some N \<longrightarrow>
        distinct (map target N) \<and> target ` set N \<inter> set (seenElements r) = {} \<and>
        target ` set N \<subseteq> set (seenElements r1)"
      by blast+
    have rep: "reported (notified (ev # events)) = target ` set burst \<union> reported (notified events)"
      by (simp add: Notify reported_def)
    obtain bs where run: "run_events r1 events = (bs, r')"
      and batches: "batches = (case out of None \<Rightarrow> bs | Some N \<Rightarrow> N # bs)"
      using Cons.prems(2) n Notify by (auto split: option.splits prod.splits)
    from Cons.IH [OF c1 run, unfolded u1] have
      c': "consistent r'" and u': "uniqueElements r' = uniqueElements r" and
      s': "set (seenElements r') =
             set (seenElements r1) \<union> (reported (notified events) \<inter> set (uniqueElements r))" and
      d': "distinct (map target (concat bs))" and
      i': "target ` set (concat bs) \<inter> set (seenElements r1) = {}" and
      t': "target ` set (concat bs) \<subseteq> set (seenElements r')"
      by blast+
    have seen: "set (seenElements r') =
        set (seenElements r) \<union> (reported (notified (ev # events)) \<inter> set (uniqueElements r))"
      unfolding rep s' s1 by blast
    show ?thesis
    proof (cases out)
      case None
      with batches have "batches = bs" by simp
      with c' u' seen d' i' t' s1 show ?thesis by auto
    next
      case (Some N)
      with batches have b: "batches = N # bs" by simp
      from o1 Some have dN: "distinct (map target N)"
        and iN: "target ` set N \<inter> set (seenElements r) = {}"
        and tN: "target ` set N \<subseteq> set (seenElements r1)" by simp_all
      have un: "target ` set (concat batches) = target ` set N \<union> target ` set (concat bs)"
        by (simp add: b image_Un)
      have "target ` set N \<inter> target ` set (concat bs) = {}"
        using i' tN by blast
      then have "distinct (map target (concat batches))"
        using dN d' by (simp add: b)
      moreover have "target ` set (concat batches) \<inter> set (seenElements r) = {}"
        unfolding un using iN i' s1 by blast
      moreover have "target ` set (concat batches) \<subseteq> set (seenElements r')"
        unfolding un using tN t' s' by blast
      ultimately show ?thesis using c' u' seen by simp
    qed
  qed
qed

lemma for_await_run_events:
  "gen r \<noteq> AtYield \<Longrightarrow>
   for_await r bursts = run_events r (concat (map (\<lambda>burst. [Notify burst, Pull]) bursts))"
proof (induction bursts arbitrary: r)
  case Nil
  show ?case by simp
next
  case (Cons burst bursts)
  obtain r1 out where n: "notify burst r = (r1, out)" by (cases "notify burst r")
  show ?case
  proof (cases out)
    case None
    with n Cons.prems have g: "gen r1 \<noteq> AtYield"
      by (auto simp: notify_def observer_callback_def collect_new_fresh resume_def loop_head_def
          Let_def split: if_splits)
    then have "pull r1 = r1" by (simp add: pull_def)
    with Cons.IH [OF g] n None show ?thesis by simp
  next
    case (Some batch)
    have "gen (pull r1) \<noteq> AtYield" by (simp add: pull_def loop_head_def)
    from Cons.IH [OF this] n Some show ?thesis by simp
  qed
qed

text \<open>
  The generator on an input of at least one element. Under any consumer, whatever the
  order of notifications and \<^verbatim>\<open>next()\<close> calls: no element is the target of two entries
  of the batches produced, every such target is an input element that has reported, and
  the consumer's next request finds the sequence completed if and only if every input
  element has reported, in however many notifications. Under a \<^verbatim>\<open>for await\<close> loop as in
  \<^verbatim>\<open>flushOutlines\<close>, which is the schedule where every notification is followed by a
  request, the targets in the batches are exactly the input elements that have reported,
  and the sequence has completed if and only if all have.
\<close>

lemma getBatchedRectMap_each_once_then_done:
  assumes "elements \<noteq> []"
  shows "distinct (map target (concat (fst (run_events (getBatchedRectMap_start elements) events)))) \<and>
     target ` set (concat (fst (run_events (getBatchedRectMap_start elements) events)))
       \<subseteq> set elements \<inter> reported (notified events) \<and>
     (gen (pull (snd (run_events (getBatchedRectMap_start elements) events))) = Returned \<longleftrightarrow>
        set elements \<subseteq> reported (notified events)) \<and>
     getBatchedRectMap elements bursts =
       run_events (getBatchedRectMap_start elements)
         (concat (map (\<lambda>burst. [Notify burst, Pull]) bursts)) \<and>
     set (map target (concat (fst (getBatchedRectMap elements bursts)))) =
       set elements \<inter> reported bursts \<and>
     (gen (snd (getBatchedRectMap elements bursts)) = Returned \<longleftrightarrow>
        set elements \<subseteq> reported bursts)"
proof -
  let ?r = "getBatchedRectMap_start elements"
  obtain batches r' where run: "run_events ?r events = (batches, r')"
    by (cases "run_events ?r events")
  have start: "uniqueElements ?r = new_Set elements" "seenElements ?r = []"
    by (simp_all add: start_waiting(2,3) [OF assms])
  from run_events_consistent [OF start_consistent [OF assms] run] have
    c: "consistent r'" and u: "uniqueElements r' = uniqueElements ?r" and
    s0: "set (seenElements r') =
          set (seenElements ?r) \<union> (reported (notified events) \<inter> set (uniqueElements ?r))" and
    d: "distinct (map target (concat batches))" and
    t: "target ` set (concat batches) \<subseteq> set (seenElements r')"
    by blast+
  from s0 have s: "set (seenElements r') = reported (notified events) \<inter> set elements"
    by (simp add: start new_Set_set)
  have "gen (pull r') = Returned \<longleftrightarrow> is_done r'"
    using c by (cases "gen r'") (auto simp: consistent_def pull_def loop_head_def)
  also have "\<dots> \<longleftrightarrow> set (seenElements r') = set elements"
    using c by (simp add: consistent_def u start new_Set_set)
  also have "\<dots> \<longleftrightarrow> set elements \<subseteq> reported (notified events)"
    unfolding s by blast
  finally have g: "gen (pull r') = Returned \<longleftrightarrow> set elements \<subseteq> reported (notified events)" .
  have a: "getBatchedRectMap elements bursts =
       run_events ?r (concat (map (\<lambda>burst. [Notify burst, Pull]) bursts))"
    unfolding getBatchedRectMap_def
    by (rule for_await_run_events) (simp add: getBatchedRectMap_start_def loop_head_def)
  obtain bs r'' where fa: "getBatchedRectMap elements bursts = (bs, r'')"
    by (cases "getBatchedRectMap elements bursts")
  from for_await_waiting [OF start_waiting(1) [OF assms] fa [unfolded getBatchedRectMap_def]]
  have f0: "set (map target (concat bs)) =
        (reported bursts \<inter> set (uniqueElements ?r)) - set (seenElements ?r)"
    "gen r'' = Returned \<longleftrightarrow>
        set (uniqueElements ?r) \<subseteq> set (seenElements ?r) \<union> reported bursts"
    by blast+
  have f: "set (map target (concat bs)) = set elements \<inter> reported bursts"
    "gen r'' = Returned \<longleftrightarrow> set elements \<subseteq> reported bursts"
    using f0 by (auto simp: start new_Set_set)
  have t2: "target ` set (concat batches) \<subseteq> set elements \<inter> reported (notified events)"
    using t s by blast
  from d t2 g f show ?thesis
    unfolding a [symmetric] by (simp add: run fa)
qed

text \<open>
  Two elements, one of them given twice, reporting in two notifications; the entry of the
  unobserved element \<open>3\<close> is not delivered, and the third notification comes after
  \<^verbatim>\<open>disconnect()\<close>. And the same elements under a consumer that is late.
\<close>

lemma getBatchedRectMap_two_elements:
  "getBatchedRectMap [Element 1, Element 2, Element 1]
      [[example_entry 1 True], [example_entry 1 True, example_entry 3 True, example_entry 2 False],
       [example_entry 2 True]]
   = ([[example_entry 1 True], [example_entry 2 False]],
      \<lparr>uniqueElements = [Element 1, Element 2], seenElements = [Element 1, Element 2],
       resolveNext = False, is_done = True, gen = Returned\<rparr>)
   \<and> distinct (map target (concat (fst (run_events
         (getBatchedRectMap_start [Element 1, Element 2, Element 1])
         [Notify [example_entry 1 True], Notify [example_entry 2 True], Pull]))))"
  using getBatchedRectMap_each_once_then_done [of "[Element 1, Element 2, Element 1]"
      "[Notify [example_entry 1 True], Notify [example_entry 2 True], Pull]"
      "[[example_entry 1 True], [example_entry 1 True, example_entry 3 True, example_entry 2 False],
       [example_entry 2 True]]"]
  by (simp add: getBatchedRectMap_def getBatchedRectMap_start_def loop_head_def new_Set_def
      Set_add_def notify_def observer_callback_def example_entry_def resume_def pull_def)

lemma for_await_nothing_observed:
  "uniqueElements r = [] \<Longrightarrow> for_await r bursts = ([], r)"
  by (induction bursts) (simp_all add: notify_unobserved)

lemma outlineFiber_keeps_key:
  "k \<in> set (blueprintMapKeys st) \<Longrightarrow> k \<in> set (blueprintMapKeys (outlineFiber f st))"
  by (auto simp: outlineFiber_def Set_add_def split: option.splits)

lemma outlineFibers_keeps_key:
  "k \<in> set (blueprintMapKeys st) \<Longrightarrow> k \<in> set (blueprintMapKeys (outlineFibers fs st))"
  unfolding outlineFibers_def
  by (induction fs arbitrary: st) (simp_all add: outlineFiber_keeps_key)

text \<open>
  \<^bold>\<open>Claim C3\<close> fails on the input of no element, \<^verbatim>\<open>getBatchedRectMap([])\<close>, where all
  \<open>K = 0\<close> elements have reported from the start. The test
  \<^verbatim>\<open>seenElements.size === uniqueElements.size\<close> stands in the observer's callback only,
  and with nothing observed the callback never runs: \<^verbatim>\<open>done\<close> is never set, no batch
  is produced, and the generator awaits its first promise whatever the browser delivers.
  The running program reaches this input: a component that renders nothing is recorded
  by \<^verbatim>\<open>outlineFiber\<close> with no element, the key set is not empty, and \<^verbatim>\<open>flushOutlines\<close>
  calls the generator with \<^verbatim>\<open>[]\<close>. The flush then stays suspended under every sequence
  of notifications and renders, and the blueprint is never removed.
\<close>

theorem getBatchedRectMap_no_element_never_completes:
  "(\<forall>bursts. getBatchedRectMap [] bursts =
       ([], \<lparr>uniqueElements = [], seenElements = [], resolveNext = True, is_done = False,
             gen = Awaiting\<rparr>)) \<and>
   blueprintMapKeys (outlineFiber hollow_fiber empty_aggregator) = [7] \<and>
   flush_elements (outlineFiber hollow_fiber empty_aggregator) = [] \<and>
   (\<forall>events. fst (flushOutlines int (outlineFiber hollow_fiber empty_aggregator) events)
       = Suspended) \<and>
   (\<forall>events. 7 \<in> set (blueprintMapKeys
       (fst (snd (flushOutlines int (outlineFiber hollow_fiber empty_aggregator) events)))))"
proof -
  let ?st = "outlineFiber hollow_fiber empty_aggregator"
  have gen: "getBatchedRectMap [] bursts =
       ([], \<lparr>uniqueElements = [], seenElements = [], resolveNext = True, is_done = False,
             gen = Awaiting\<rparr>)" for bursts
    by (simp add: getBatchedRectMap_def start_empty for_await_nothing_observed)
  have keys: "blueprintMapKeys ?st = [7]"
    by (simp add: outlineFiber_def hollow_fiber_def empty_aggregator_def fiber_name_def
        Set_add_def)
  have elements: "flush_elements ?st = []"
    by (simp add: flush_elements_def outlineFiber_def hollow_fiber_def empty_aggregator_def
        fiber_name_def Set_add_def)
  have run: "flushOutlines int ?st events =
       (Suspended, outlineFibers (rendered_fibers events) ?st, [])" for events
    by (rule flushOutlines_nothing_to_observe [OF elements])
  have kept: "7 \<in> set (blueprintMapKeys (outlineFibers (rendered_fibers events) ?st))"
    for events
    by (rule outlineFibers_keeps_key) (simp add: keys)
  show ?thesis
    using gen keys elements kept by (simp add: run)
qed

lemma notify_at_yield:
  assumes "gen r = AtYield"
  shows "snd (notify burst r) = None \<and> gen (fst (notify burst r)) = AtYield"
  using assms
  by (simp add: notify_def observer_callback_def collect_new_fresh Let_def)

text \<open>
  \<^bold>\<open>Claim C7\<close>, as the code has it. If the generator is awaiting its promise when the
  callback runs (\<open>resolveNext\<close> holds a function) and the entries that are not yet seen
  are not none, then exactly these entries, the first of each target, are the batch
  yielded next. While a yielded batch has not been claimed by \<^verbatim>\<open>next()\<close>, a notification
  yields nothing and the generator stays at its \<^verbatim>\<open>yield\<close>: at most one batch is
  outstanding. The callback is an ordinary function that runs to its end; nothing holds
  it back.
\<close>

theorem notify_hands_over_when_awaited:
  "(gen r = Awaiting \<and> resolveNext r \<and> \<not> is_done r \<and>
    N = fresh (set (seenElements r)) (filter (\<lambda>e. target e \<in> set (uniqueElements r)) burst) \<and>
    N \<noteq> []
    \<longrightarrow> snd (notify burst r) = Some N \<and> gen (fst (notify burst r)) = AtYield \<and>
        set N \<subseteq> set burst \<and> distinct (map target N) \<and>
        target ` set N = (target ` set burst \<inter> set (uniqueElements r)) - set (seenElements r))
   \<and> (gen r = AtYield
    \<longrightarrow> snd (notify burst r) = None \<and> gen (fst (notify burst r)) = AtYield)"
proof (intro conjI impI)
  assume a: "gen r = Awaiting \<and> resolveNext r \<and> \<not> is_done r \<and>
    N = fresh (set (seenElements r)) (filter (\<lambda>e. target e \<in> set (uniqueElements r)) burst) \<and>
    N \<noteq> []"
  then have n: "notify burst r =
     (r\<lparr>seenElements := seenElements r @ map target N, resolveNext := False,
        is_done := (length (seenElements r @ map target N) = length (uniqueElements r)),
        gen := AtYield\<rparr>, Some N)"
    using notify_waiting_some [of r N burst] by blast
  show "snd (notify burst r) = Some N" by (simp add: n)
  show "gen (fst (notify burst r)) = AtYield" by (simp add: n)
  from a show "set N \<subseteq> set burst" using fresh_subset by fastforce
  from a show "distinct (map target N)" by (simp add: fresh_distinct)
  from a show "target ` set N = (target ` set burst \<inter> set (uniqueElements r)) - set (seenElements r)"
    by (auto simp: fresh_targets)
next
  assume "gen r = AtYield"
  then show "snd (notify burst r) = None" and "gen (fst (notify burst r)) = AtYield"
    by (simp_all add: notify_at_yield)
qed

text \<open>
  A notification with a repeated target and an unobserved one while the generator awaits;
  then a second notification before the first batch is claimed.
\<close>

theorem notify_hands_over_when_awaited_witness:
  "snd (notify [example_entry 1 True, example_entry 3 True, example_entry 1 False]
          (getBatchedRectMap_start [Element 1, Element 2])) = Some [example_entry 1 True]
   \<and> snd (notify [example_entry 2 True]
          (fst (notify [example_entry 1 True] (getBatchedRectMap_start [Element 1, Element 2])))) = None"
  using notify_hands_over_when_awaited
      [of "getBatchedRectMap_start [Element 1, Element 2]" "[example_entry 1 True]"
          "[example_entry 1 True, example_entry 3 True, example_entry 1 False]"]
    notify_hands_over_when_awaited
      [of "fst (notify [example_entry 1 True] (getBatchedRectMap_start [Element 1, Element 2]))"
          "[]" "[example_entry 2 True]"]
  by (simp add: getBatchedRectMap_start_def loop_head_def new_Set_def
      Set_add_def notify_def observer_callback_def example_entry_def resume_def)

text \<open>
  Claim C7 as stated lets no newly seen entry be lost. A consumer that has not called
  \<^verbatim>\<open>next()\<close> again when the second notification arrives: \<open>resolveNext\<close> is \<^verbatim>\<open>null\<close>, the
  callback marks element \<open>2\<close> as seen and drops its entry, and the sequence ends having
  produced the batch of element \<open>1\<close> only.
\<close>

theorem notify_unclaimed_batch_counterexample:
  "Element 2 \<notin> set (seenElements (fst (notify [example_entry 1 True]
        (getBatchedRectMap_start [Element 1, Element 2])))) \<and>
   run_events (getBatchedRectMap_start [Element 1, Element 2])
      [Notify [example_entry 1 True], Notify [example_entry 2 True], Pull]
   = ([[example_entry 1 True]],
      \<lparr>uniqueElements = [Element 1, Element 2], seenElements = [Element 1, Element 2],
       resolveNext = False, is_done = True, gen = Returned\<rparr>)"
  by (simp add: getBatchedRectMap_start_def loop_head_def new_Set_def
      Set_add_def notify_def observer_callback_def example_entry_def resume_def pull_def)

subsection \<open>\<^verbatim>\<open>updateOutlines\<close>\<close>

lemma updateOutlines_Nil: "updateOutlines String [] active = active"
  by (simp add: updateOutlines_def)

lemma updateOutlines_snoc:
  "updateOutlines String (outlines @ [d]) active =
     update_outline String (updateOutlines String outlines active) d"
  by (simp add: updateOutlines_def)

text \<open>
  \<^bold>\<open>Claim C5.\<close> \<^verbatim>\<open>updateOutlines\<close> starts from the active entries as they are: with no
  incoming record it leaves them unchanged. Let \<open>d\<close> be an incoming record that it
  processes after the records \<open>outlines\<close>, and let its key be \<open>String (id)\<close>. If no entry
  has that key at that point, the entry created has \<open>frame = 0\<close>, the position of \<open>d\<close> as
  current and as target position, and the other fields of \<open>d\<close>. If an entry \<open>e\<close> has that
  key, its target and its \<open>didCommit\<close> become those of \<open>d\<close>, its \<open>frame\<close> becomes \<open>0\<close>, its
  \<open>count\<close> grows by one, and its current position (with \<open>id\<close> and \<open>name\<close>) stays as it was.
  No entry of another key changes.
\<close>

theorem updateOutlines_merges_record:
  "updateOutlines String [] active0 = active0
   \<and> (updateOutlines String outlines active0 (String (o_id d)) = None \<longrightarrow>
      (\<exists>a. updateOutlines String (outlines @ [d]) active0 (String (o_id d)) = Some a \<and>
           frame a = 0 \<and>
           o_x a = o_x d \<and> o_y a = o_y d \<and> o_width a = o_width d \<and> o_height a = o_height d \<and>
           targetX a = o_x a \<and> targetY a = o_y a \<and>
           targetWidth a = o_width a \<and> targetHeight a = o_height a \<and>
           o_id a = o_id d \<and> o_name a = o_name d \<and> o_count a = o_count d \<and>
           o_didCommit a = o_didCommit d))
   \<and> (updateOutlines String outlines active0 (String (o_id d)) = Some e \<longrightarrow>
      (\<exists>a. updateOutlines String (outlines @ [d]) active0 (String (o_id d)) = Some a \<and>
           targetX a = o_x d \<and> targetY a = o_y d \<and>
           targetWidth a = o_width d \<and> targetHeight a = o_height d \<and>
           o_didCommit a = o_didCommit d \<and> frame a = 0 \<and> o_count a = o_count e + 1 \<and>
           o_x a = o_x e \<and> o_y a = o_y e \<and> o_width a = o_width e \<and> o_height a = o_height e \<and>
           o_id a = o_id e \<and> o_name a = o_name e))
   \<and> (key \<noteq> String (o_id d) \<longrightarrow>
        updateOutlines String (outlines @ [d]) active0 key =
          updateOutlines String outlines active0 key)"
  by (auto simp: updateOutlines_Nil updateOutlines_snoc update_outline_def Let_def
      split: option.splits)

text \<open>
  A renderer that holds an entry of key \<open>1\<close> with \<open>count = 9\<close> at \<open>x = 7\<close>, and the record of
  id \<open>1\<close> at \<open>x = 1\<close> arrives: the entry counts \<open>10\<close>, stays at \<open>x = 7\<close> and aims at
  \<open>x = 1\<close>. The record of id \<open>1\<close> arrives in an empty renderer, then a second one of the
  same id at another position: the entry keeps \<open>x = 1\<close>, aims at \<open>x = 50\<close> and counts
  \<open>3 + 1\<close>. The key \<open>2\<close> stays without entry.
\<close>

theorem updateOutlines_merges_record_witness:
  "(\<exists>a. updateOutlines decimal [example_outline] [''1'' \<mapsto> example_active] ''1'' = Some a \<and>
        frame a = 0 \<and> o_count a = 10 \<and> o_x a = 7 \<and> targetX a = 1) \<and>
   (\<exists>a. updateOutlines decimal [example_outline] Map.empty ''1'' = Some a \<and> frame a = 0 \<and>
        o_count a = 3 \<and> o_x a = 1 \<and> targetX a = 1) \<and>
   (\<exists>a. updateOutlines decimal [example_outline, example_outline\<lparr>o_x := 50, o_didCommit := 0\<rparr>]
          Map.empty ''1''
          = Some a \<and> frame a = 0 \<and> o_count a = 4 \<and> o_x a = 1 \<and> targetX a = 50 \<and>
        o_didCommit a = 0) \<and>
   updateOutlines decimal [example_outline] Map.empty ''2'' = None"
proof -
  let ?d = "example_outline\<lparr>o_x := 50, o_didCommit := 0\<rparr>"
  let ?held = "[''1'' \<mapsto> example_active]"
  have key: "decimal 1 = ''1''" "decimal (o_id example_outline) = ''1''" "decimal (o_id ?d) = ''1''"
    by (simp_all add: decimal_def digits.simps digit_char_def example_outline_def)
  note step = updateOutlines_merges_record [of decimal]
  from step [of ?held, THEN conjunct1]
  have held: "updateOutlines decimal [] ?held (decimal (o_id example_outline)) = Some example_active"
    by (simp add: key)
  from step [of ?held "[]" example_outline example_active,
      THEN conjunct2, THEN conjunct2, THEN conjunct1, rule_format, OF held]
  obtain h where h: "updateOutlines decimal [example_outline] ?held ''1'' = Some h"
    "frame h = 0" "o_count h = 10" "o_x h = 7" "targetX h = 1"
    by (auto simp: key example_outline_def example_active_def)
  from step [of Map.empty, THEN conjunct1]
  have fresh: "updateOutlines decimal [] Map.empty (decimal (o_id example_outline)) = None"
    by simp
  from step [of Map.empty "[]" example_outline,
      THEN conjunct2, THEN conjunct1, rule_format, OF fresh]
  obtain a where a: "updateOutlines decimal [example_outline] Map.empty ''1'' = Some a"
    "frame a = 0" "o_count a = 3" "o_x a = 1" "targetX a = 1"
    by (auto simp: key example_outline_def)
  from a(1) have old: "updateOutlines decimal [example_outline] Map.empty (decimal (o_id ?d)) = Some a"
    by (simp add: key)
  from step [of Map.empty "[example_outline]" ?d a,
      THEN conjunct2, THEN conjunct2, THEN conjunct1, rule_format, OF old]
  obtain b where b: "updateOutlines decimal [example_outline, ?d] Map.empty ''1'' = Some b"
    "frame b = 0" "o_count b = 4" "o_x b = 1" "targetX b = 50" "o_didCommit b = 0"
    using a by (auto simp: key example_outline_def)
  have other: "''2'' \<noteq> decimal (o_id example_outline)" by (simp add: key)
  from step [of Map.empty "[]" example_outline _ "''2''",
      THEN conjunct2, THEN conjunct2, THEN conjunct2, rule_format, OF other]
    step [of Map.empty, THEN conjunct1]
  have c: "updateOutlines decimal [example_outline] Map.empty ''2'' = None"
    by simp
  from h a b c show ?thesis by blast
qed

subsection \<open>\<^verbatim>\<open>WorkerOutlineRenderer.renderOutlines\<close>\<close>

lemma replicate_seven:
  "replicate (7 + 7 * m) (0::real) = 0 # 0 # 0 # 0 # 0 # 0 # 0 # replicate (7 * m) 0"
proof -
  have "replicate (7 + 7 * m) (0::real) = replicate 7 0 @ replicate (7 * m) 0"
    by (simp add: replicate_add)
  then show ?thesis by (simp add: eval_nat_numeral)
qed

lemma pack_outline_slots:
  assumes "length A = i * 7" and "length ns = i"
  shows "pack_outline fround
           (\<lparr>byteLength = n, float32 = A @ 0 # 0 # 0 # 0 # 0 # 0 # 0 # R\<rparr>, ns @ None # ms) (i, outline) =
         (\<lparr>byteLength = n, float32 = A @ map fround (outline_slots outline) @ R\<rparr>,
          ns @ Some (o_name outline) # ms)"
  using assms
  by (simp add: store_def OUTLINE_ARRAY_SIZE_def outline_slots_def list_update_append Let_def)

lemma pack_outline_foldl:
  assumes "length A = i * 7" and "length ns = i"
  shows "foldl (pack_outline fround)
           (\<lparr>byteLength = n, float32 = A @ replicate (7 * length rest) 0\<rparr>,
            ns @ replicate (length rest) None)
           (List.enumerate i rest) =
         (\<lparr>byteLength = n, float32 = A @ concat (map (\<lambda>outline. map fround (outline_slots outline)) rest)\<rparr>,
          ns @ map (\<lambda>outline. Some (o_name outline)) rest)"
  using assms
proof (induction rest arbitrary: A ns i)
  case Nil
  show ?case by simp
next
  case (Cons outline rest)
  have A': "length (A @ map fround (outline_slots outline)) = Suc i * 7"
    using Cons.prems(1) by (simp add: outline_slots_def)
  have ns': "length (ns @ [Some (o_name outline)]) = Suc i"
    using Cons.prems(2) by simp
  have "foldl (pack_outline fround)
          (\<lparr>byteLength = n, float32 = A @ replicate (7 * length (outline # rest)) 0\<rparr>,
           ns @ replicate (length (outline # rest)) None)
          (List.enumerate i (outline # rest)) =
        foldl (pack_outline fround)
          (\<lparr>byteLength = n,
            float32 = (A @ map fround (outline_slots outline)) @ replicate (7 * length rest) 0\<rparr>,
           (ns @ [Some (o_name outline)]) @ replicate (length rest) None)
          (List.enumerate (Suc i) rest)"
    by (simp add: replicate_seven pack_outline_slots [OF Cons.prems] del: pack_outline.simps)
  also have "\<dots> =
        (\<lparr>byteLength = n,
          float32 = (A @ map fround (outline_slots outline)) @
                    concat (map (\<lambda>outline. map fround (outline_slots outline)) rest)\<rparr>,
         (ns @ [Some (o_name outline)]) @ map (\<lambda>outline. Some (o_name outline)) rest)"
    by (rule Cons.IH [OF A' ns'])
  finally show ?case by simp
qed

lemma draw_outlines_message_eq:
  "draw_outlines_message fround outlines =
     DrawOutlines
       \<lparr>byteLength = length outlines * 7 * 4,
        float32 = concat (map (\<lambda>outline. map fround (outline_slots outline)) outlines)\<rparr>
       (map (\<lambda>outline. Some (o_name outline)) outlines)"
proof -
  have "new_ArrayBuffer (length outlines * OUTLINE_ARRAY_SIZE * 4) =
          \<lparr>byteLength = length outlines * 7 * 4, float32 = [] @ replicate (7 * length outlines) 0\<rparr>"
    by (simp add: new_ArrayBuffer_def OUTLINE_ARRAY_SIZE_def mult.commute)
  then show ?thesis
    using pack_outline_foldl [of "[]" 0 "[]" fround "length outlines * 7 * 4" outlines]
    by (simp add: draw_outlines_message_def)
qed

lemma concat_slots_length:
  "length (concat (map (\<lambda>outline. map fround (outline_slots outline)) outlines)) = length outlines * 7"
  by (induction outlines) (simp_all add: outline_slots_def)

lemma concat_slots_nth:
  assumes "i < length outlines" and "k < 7"
  shows "concat (map (\<lambda>outline. map fround (outline_slots outline)) outlines) ! (7 * i + k) =
         fround (outline_slots (outlines ! i) ! k)"
  using assms
proof (induction outlines arbitrary: i)
  case Nil
  then show ?case by simp
next
  case (Cons outline outlines)
  have len: "length (outline_slots outline) = 7" by (simp add: outline_slots_def)
  show ?case
  proof (cases i)
    case 0
    with Cons.prems(2) show ?thesis by (simp add: nth_append len)
  next
    case (Suc j)
    with Cons.prems have "j < length outlines" by simp
    from Cons.IH [OF this Cons.prems(2)] Suc show ?thesis
      by (simp add: nth_append len)
  qed
qed

text \<open>
  \<^bold>\<open>Claim C4.\<close> For a list of \<open>N\<close> records, \<^verbatim>\<open>renderOutlines\<close> of the worker backend posts
  one \<^verbatim>\<open>draw-outlines\<close> message whose buffer has exactly \<open>N \<times> 7 \<times> 4\<close> bytes, that is
  \<open>7 N\<close> single-precision slots; slot \<open>7 i + k\<close> holds the conversion of the \<open>k\<close>-th of
  \<open>[id, count, x, y, width, height, didCommit]\<close> of record \<open>i\<close>; the names are not in the
  buffer but in a list of length \<open>N\<close> whose index \<open>i\<close> holds the name of record \<open>i\<close>. For
  the record \<open>{id: 1, count: 3, x: 1, y: 2, width: 3, height: 4, didCommit: 1}\<close> the buffer
  has \<open>28\<close> bytes and the slots are the conversions of \<open>[1, 3, 1, 2, 3, 4, 1]\<close>, numbers
  that single precision represents exactly.
\<close>

theorem worker_renderOutlines_wire_format:
  "\<exists>buf names.
     draw_outlines_message fround outlines = DrawOutlines buf names \<and>
     (\<not> worker_terminated w \<longrightarrow>
        worker_received (worker_renderOutlines fround outlines w) =
          worker_received w @ [DrawOutlines buf names]) \<and>
     byteLength buf = length outlines * 7 * 4 \<and>
     length (float32 buf) = length outlines * 7 \<and>
     (\<forall>i < length outlines. \<forall>k < 7.
        float32 buf ! (7 * i + k) = fround (outline_slots (outlines ! i) ! k)) \<and>
     length names = length outlines \<and>
     (\<forall>i < length outlines. names ! i = Some (o_name (outlines ! i))) \<and>
     (outlines = [\<lparr>o_id = 1, o_name = name, o_count = 3, o_x = 1, o_y = 2, o_width = 3,
                   o_height = 4, o_didCommit = 1\<rparr>] \<longrightarrow>
        byteLength buf = 28 \<and> float32 buf = map fround [1, 3, 1, 2, 3, 4, 1] \<and> names = [Some name])"
proof -
  let ?buf = "\<lparr>byteLength = length outlines * 7 * 4,
      float32 = concat (map (\<lambda>outline. map fround (outline_slots outline)) outlines)\<rparr>"
  let ?names = "map (\<lambda>outline. Some (o_name outline)) outlines"
  have m: "draw_outlines_message fround outlines = DrawOutlines ?buf ?names"
    by (rule draw_outlines_message_eq)
  have sent: "\<not> worker_terminated w \<longrightarrow>
      worker_received (worker_renderOutlines fround outlines w) =
        worker_received w @ [DrawOutlines ?buf ?names]"
    by (simp add: worker_renderOutlines_def postMessage_def m)
  have len: "length (float32 ?buf) = length outlines * 7"
    by (simp add: concat_slots_length)
  have slots: "\<forall>i < length outlines. \<forall>k < 7.
      float32 ?buf ! (7 * i + k) = fround (outline_slots (outlines ! i) ! k)"
    by (simp add: concat_slots_nth)
  have example: "outlines = [\<lparr>o_id = 1, o_name = name, o_count = 3, o_x = 1, o_y = 2, o_width = 3,
                   o_height = 4, o_didCommit = 1\<rparr>] \<longrightarrow>
        byteLength ?buf = 28 \<and> float32 ?buf = map fround [1, 3, 1, 2, 3, 4, 1] \<and>
        ?names = [Some name]"
    by (simp add: outline_slots_def)
  from m sent len slots example show ?thesis by simp
qed

text \<open>
  The record of the example, with a conversion that leaves its numbers as they are, and
  the message as a running worker receives it.
\<close>

theorem worker_renderOutlines_wire_format_witness:
  "draw_outlines_message (\<lambda>v. v) [example_outline] =
     DrawOutlines \<lparr>byteLength = 28, float32 = [1, 3, 1, 2, 3, 4, 1]\<rparr> [Some ''App''] \<and>
   worker_received (worker_renderOutlines (\<lambda>v. v) [example_outline]
       \<lparr>worker_received = [], worker_terminated = False\<rparr>) =
     [DrawOutlines \<lparr>byteLength = 28, float32 = [1, 3, 1, 2, 3, 4, 1]\<rparr> [Some ''App'']]"
proof -
  from worker_renderOutlines_wire_format [of "\<lambda>v. v" "[example_outline]"
      "\<lparr>worker_received = [], worker_terminated = False\<rparr>" "''App''"]
  obtain buf names where
    m: "draw_outlines_message (\<lambda>v. v) [example_outline] = DrawOutlines buf names" and
    s: "worker_received (worker_renderOutlines (\<lambda>v. v) [example_outline]
          \<lparr>worker_received = [], worker_terminated = False\<rparr>) = [DrawOutlines buf names]" and
    b: "byteLength buf = 28" "float32 buf = [1, 3, 1, 2, 3, 4, 1]" "names = [Some ''App'']"
    by (auto simp: example_outline_def)
  from b have "buf = \<lparr>byteLength = 28, float32 = [1, 3, 1, 2, 3, 4, 1]\<rparr>" by simp
  with m s b show ?thesis by simp
qed

subsection \<open>\<^verbatim>\<open>dispose\<close>\<close>

lemma worker_dispose_silences:
  "worker_received (worker_renderOutlines fround outlines (worker_dispose w)) = worker_received w"
  "worker_received (worker_scroll deltaX deltaY (worker_dispose w)) = worker_received w"
  "worker_dispose (worker_dispose w) = worker_dispose w"
  by (simp_all add: worker_renderOutlines_def worker_scroll_def worker_dispose_def postMessage_def)

text \<open>
  \<^bold>\<open>Claim C9\<close> at a failing input. \<^verbatim>\<open>dispose\<close> of the direct renderer has an empty body
  and changes nothing. A \<^verbatim>\<open>renderOutlines\<close> call after it requests an animation frame as
  before, and the frame's \<^verbatim>\<open>draw\<close> calls \<^verbatim>\<open>drawCanvas\<close>: the renderer goes on drawing.
  (The worker backend does stop: the three equations above.)
\<close>

theorem canvas_dispose_keeps_drawing:
  "canvas_dispose r = r \<and>
   animationFrameId
     (canvas_renderOutlines decimal [example_outline]
        (canvas_dispose new_CanvasOutlineRenderer)) = Some 1 \<and>
   canvas_draws
     (canvas_draw drawCanvas
        (canvas_renderOutlines decimal [example_outline]
           (canvas_dispose new_CanvasOutlineRenderer))) = 1"
  by (simp add: canvas_dispose_def canvas_renderOutlines_def new_CanvasOutlineRenderer_def
      requestAnimationFrame_def canvas_draw_def Let_def split: prod.splits)

subsection \<open>The scroll listener\<close>

lemma on_timeout_calls:
  "length (scroll_calls (on_timeout s)) \<le> Suc (length (scroll_calls s))"
  by (simp add: on_timeout_def split: option.splits)

lemma on_scroll_calls: "scroll_calls (on_scroll scrollX scrollY s) = scroll_calls s"
  by (simp add: on_scroll_def Let_def)

lemma scroll_run_Cons: "scroll_run (ev # events) s = scroll_run events (scroll_step s ev)"
  by (simp add: scroll_run_def)

lemma scroll_run_calls:
  "length (scroll_calls (scroll_run events s)) \<le>
     length (scroll_calls s) + length (filter (\<lambda>ev. ev = Timeout) events)"
proof (induction events arbitrary: s)
  case Nil
  show ?case by (simp add: scroll_run_def)
next
  case (Cons ev events)
  show ?case
  proof (cases ev)
    case (ScrollTo scrollX scrollY)
    with Cons.IH [of "on_scroll scrollX scrollY s"] show ?thesis
      by (simp add: scroll_run_Cons on_scroll_calls)
  next
    case Timeout
    with Cons.IH [of "on_timeout s"] on_timeout_calls [of s] show ?thesis
      by (simp add: scroll_run_Cons)
  qed
qed

text \<open>
  The resize path forwards the state at the time the timer fires: of two sizes set
  within one window the canvas gets the last.
\<close>

lemma resize_forwards_last_size:
  "canvas_sizes
     (resize_timeout (resize b (resize a
        \<lparr>this_size = c, isResizeScheduled = False, canvas_sizes = []\<rparr>))) = [b]"
  by (simp add: resize_def resize_timeout_def)

text \<open>
  \<^bold>\<open>Claim C10\<close> at a failing input. The window scrolls from \<open>0\<close> to \<open>10\<close> and on to \<open>30\<close>
  within one window of the timer. The first event schedules the call with its own delta;
  the second only moves \<open>prevScrollY\<close>. When the timer fires, the renderer is told to
  shift by \<open>10\<close>, and nothing is pending that would deliver the other \<open>20\<close>. (The number
  of calls is at most the number of timers that fired: the lemma above.)
\<close>

theorem scroll_listener_forwards_first_delta_only:
  "scroll_calls (scroll_run [ScrollTo 0 10, ScrollTo 0 30, Timeout] (new_scroll_listener 0 0))
     = [(0, 10)] \<and>
   prevScrollY (scroll_run [ScrollTo 0 10, ScrollTo 0 30, Timeout] (new_scroll_listener 0 0)) = 30 \<and>
   pending_timeout (scroll_run [ScrollTo 0 10, ScrollTo 0 30, Timeout] (new_scroll_listener 0 0))
     = None"
  by (simp add: scroll_run_def on_scroll_def on_timeout_def new_scroll_listener_def Let_def)

end
